theory Spec2Isabelle
  imports Main
begin

section \<open>Values and the browser store\<close>

text \<open>
  The values the program keeps in storage are JSON trees. Only whole numbers occur on the
  paths modelled here (ratings, lengths, counts), so a number is an \<open>int\<close>; an object is the
  list of its properties in insertion order.
\<close>

datatype json =
    JNull
  | JBool bool
  | JNum int
  | JStr string
  | JArr "json list"
  | JObj "(string \<times> json) list"

text \<open>JavaScript truthiness, as used by \<open>x || []\<close>, \<open>!x\<close> and \<open>x ? a : b\<close>.\<close>

fun truthy :: "json \<Rightarrow> bool" where
  "truthy JNull = False"
| "truthy (JBool b) = b"
| "truthy (JNum n) = (n \<noteq> 0)"
| "truthy (JStr s) = (s \<noteq> [])"
| "truthy (JArr xs) = True"
| "truthy (JObj ps) = True"

text \<open>\<open>a || b\<close> on values.\<close>

definition or_else :: "json \<Rightarrow> json \<Rightarrow> json" where
  "or_else a b = (if truthy a then a else b)"

text \<open>
  \<open>localStorage\<close> maps keys to texts. The program uses every key in exactly one of two ways:
  the keys \<open>userStamp\<close> and \<open>userNickname\<close> are written and read as plain strings, every other
  key is read through \<open>JSON.parse\<close> and, when written at all, written through
  \<open>JSON.stringify\<close>. The model therefore keeps one map per use. An entry of the second kind
  is recorded by what \<open>JSON.parse\<close> makes of its text: the value it denotes (\<open>Parsed\<close>, which
  is also what a text produced by \<open>JSON.stringify\<close> reads back as), a non-empty text that
  \<open>JSON.parse\<close> rejects with a SyntaxError (\<open>Garbled\<close>), or the empty string (\<open>Blank\<close>).
  \<open>full\<close> says that the browser refuses further writes: \<open>localStorage.setItem\<close> then throws
  a QuotaExceededError.
\<close>

datatype doc = Parsed json | Garbled | Blank

record local_storage =
  texts :: "string \<rightharpoonup> string"
  docs :: "string \<rightharpoonup> doc"
  full :: bool

datatype error = SyntaxError | TypeError | QuotaExceededError

text \<open>The two raw writes, \<open>localStorage.setItem(k, s)\<close> for a plain string and for a
  serialised value; \<open>None\<close> is the thrown QuotaExceededError.\<close>

definition ls_setText :: "local_storage \<Rightarrow> string \<Rightarrow> string \<Rightarrow> local_storage option" where
  "ls_setText ls k s = (if full ls then None else Some (ls\<lparr>texts := (texts ls)(k \<mapsto> s)\<rparr>))"

definition ls_setDoc :: "local_storage \<Rightarrow> string \<Rightarrow> json \<Rightarrow> local_storage option" where
  "ls_setDoc ls k v = (if full ls then None else Some (ls\<lparr>docs := (docs ls)(k \<mapsto> Parsed v)\<rparr>))"

section \<open>FileStorage (storage.js)\<close>

text \<open>
  The constructor sets \<open>prefix\<close> to a constant and \<open>enabled\<close> to the outcome of a write and
  delete probe; \<open>enabled\<close> is the only field that varies.
\<close>

record file_storage =
  enabled :: bool

definition storage_prefix :: string where
  "storage_prefix = ''breakthroughIdeas_''"

text \<open>
  \<open>getDefaults\<close> looks the key up in a fixed object literal and answers \<open>null\<close> for a key
  that is not in it. (Every key the program passes contains a dot, so the properties the
  literal inherits from \<open>Object.prototype\<close> are never hit.)
\<close>

definition getDefaults :: "string \<Rightarrow> json" where
  "getDefaults key =
     (if key = ''projects.system'' then JArr []
      else if key = ''projects.user'' then JArr []
      else if key = ''projects.allProjects'' then JArr []
      else if key = ''users.allUsers'' then JArr []
      else if key = ''users.userProjects'' then JArr []
      else if key = ''logs._activity_logs'' then JArr []
      else if key = ''logs.rate_limits'' then JObj []
      else if key = ''session.location'' then JObj [(''pending'', JStr ''User interaction required'')]
      else if key = ''session.userDetails'' then JObj []
      else JNull)"

text \<open>
  \<open>getItem\<close>: the default when storage is disabled, when the entry is absent or the empty
  string (both falsy), and when \<open>JSON.parse\<close> throws (the \<open>catch\<close> branch); the parsed value
  otherwise. Every branch returns a value: nothing propagates to the caller.
\<close>

definition getItem :: "file_storage \<Rightarrow> local_storage \<Rightarrow> string \<Rightarrow> json" where
  "getItem fs ls key =
     (if \<not> enabled fs then getDefaults key
      else case docs ls (storage_prefix @ key) of
             None \<Rightarrow> getDefaults key
           | Some Blank \<Rightarrow> getDefaults key
           | Some Garbled \<Rightarrow> getDefaults key
           | Some (Parsed v) \<Rightarrow> v)"

text \<open>
  \<open>setItem\<close>: \<open>false\<close> without a write when storage is disabled or the write throws,
  \<open>true\<close> after the write otherwise.
\<close>

definition setItem :: "file_storage \<Rightarrow> local_storage \<Rightarrow> string \<Rightarrow> json \<Rightarrow> bool \<times> local_storage" where
  "setItem fs ls key v =
     (if \<not> enabled fs then (False, ls)
      else case ls_setDoc ls (storage_prefix @ key) v of
             None \<Rightarrow> (False, ls)
           | Some ls' \<Rightarrow> (True, ls'))"

section \<open>Strings and numbers as JavaScript renders them\<close>

text \<open>
  A JavaScript string is modelled as a HOL \<open>string\<close>; \<open>charCodeAt\<close> is \<open>of_char\<close>.
  \<open>digit36\<close> is the digit alphabet of \<open>Number.prototype.toString\<close>: \<open>0\<close> to \<open>9\<close> (codes
  from 48), then \<open>a\<close> to \<open>z\<close> (codes from 97).
\<close>

definition digit36 :: "nat \<Rightarrow> char" where
  "digit36 d = (if d < 10 then char_of (48 + d) else char_of (87 + d))"

text \<open>\<open>n.toString(36)\<close> and \<open>String(n)\<close> for a whole number \<open>n \<ge> 0\<close>.\<close>

function toString36 :: "nat \<Rightarrow> string" where
  "toString36 n = (if n < 36 then [digit36 n] else toString36 (n div 36) @ [digit36 (n mod 36)])"
  by pat_completeness auto
termination
  by (relation "measure (\<lambda>n. n)") auto

function toString10 :: "nat \<Rightarrow> string" where
  "toString10 n = (if n < 10 then [digit36 n] else toString10 (n div 10) @ [digit36 (n mod 10)])"
  by pat_completeness auto
termination
  by (relation "measure (\<lambda>n. n)") auto

declare toString36.simps [simp del] toString10.simps [simp del]

text \<open>\<open>toUpperCase\<close> on the letters \<open>a\<close> to \<open>z\<close>; it is applied to base-36 text only.\<close>

definition upper_char :: "char \<Rightarrow> char" where
  "upper_char c =
     (if (97::nat) \<le> of_char c \<and> of_char c \<le> (122::nat)
      then char_of (of_char c - (32::nat)) else c)"

definition toUpperCase :: "string \<Rightarrow> string" where
  "toUpperCase s = map upper_char s"

text \<open>
  \<open>String.prototype.trim\<close> removes white space and line terminators from both ends; among
  the characters of a HOL \<open>string\<close> these are the codes 9 to 13, 32 and 160.
\<close>

definition is_space :: "char \<Rightarrow> bool" where
  "is_space c = (of_char c \<in> {9::nat, 10, 11, 12, 13, 32, 160})"

definition trim :: "string \<Rightarrow> string" where
  "trim s = rev (dropWhile is_space (rev (dropWhile is_space s)))"

section \<open>UserSession: the stamp (user-session module)\<close>

record user_session =
  storage :: file_storage
  stamp :: string
  nickname :: "string option"
  userDetails :: json
  sessionData :: json

text \<open>What \<open>generateUserStamp\<close> reads from \<open>navigator\<close> and \<open>screen\<close>.\<close>

record fingerprint =
  userAgent :: string
  language :: string
  screen_width :: nat
  screen_height :: nat

text \<open>\<open>ToInt32\<close>, the conversion behind \<open><<\<close> and \<open>&\<close>.\<close>

definition to_int32 :: "int \<Rightarrow> int" where
  "to_int32 x = (x + 2147483648) mod 4294967296 - 2147483648"

text \<open>
  The loop of \<open>simpleHash\<close>: \<open>hash = ((hash << 5) - hash) + char; hash = hash & hash\<close>.
  The shift wraps to 32 bits, the subtraction and addition are exact, \<open>&\<close> wraps again.
\<close>

fun simpleHash_loop :: "int \<Rightarrow> string \<Rightarrow> int" where
  "simpleHash_loop hash [] = hash"
| "simpleHash_loop hash (c # cs) =
     simpleHash_loop (to_int32 ((to_int32 (hash * 32) - hash) + int (of_char c))) cs"

definition simpleHash :: "string \<Rightarrow> nat" where
  "simpleHash str = nat \<bar>simpleHash_loop 0 str\<bar>"

definition browserData :: "fingerprint \<Rightarrow> string" where
  "browserData fp =
     userAgent fp @ language fp @ toString10 (screen_width fp) @ toString10 (screen_height fp)"

definition computeStamp :: "fingerprint \<Rightarrow> string" where
  "computeStamp fp = toUpperCase (take 6 (toString36 (simpleHash (browserData fp))))"

text \<open>
  \<open>generateUserStamp\<close>: a non-empty \<open>userStamp\<close> entry is returned as it is; otherwise the
  stamp is computed, written to \<open>userStamp\<close> (a raw write, whose QuotaExceededError nobody
  catches) and returned. The result is the returned stamp with the store after the call.
\<close>

definition generateUserStamp :: "fingerprint \<Rightarrow> local_storage \<Rightarrow> error + (string \<times> local_storage)" where
  "generateUserStamp fp ls =
     (case texts ls ''userStamp'' of
        Some existing \<Rightarrow>
          if existing \<noteq> [] then Inr (existing, ls)
          else (case ls_setText ls ''userStamp'' (computeStamp fp) of
                  None \<Rightarrow> Inl QuotaExceededError
                | Some ls' \<Rightarrow> Inr (computeStamp fp, ls'))
      | None \<Rightarrow>
          (case ls_setText ls ''userStamp'' (computeStamp fp) of
             None \<Rightarrow> Inl QuotaExceededError
           | Some ls' \<Rightarrow> Inr (computeStamp fp, ls')))"

text \<open>A character of an upper-case base-36 numeral: \<open>0\<close> to \<open>9\<close> (codes 48 to 57) or
  \<open>A\<close> to \<open>Z\<close> (codes 65 to 90).\<close>

definition is_upper36 :: "char \<Rightarrow> bool" where
  "is_upper36 c =
     (((48::nat) \<le> of_char c \<and> of_char c \<le> (57::nat))
      \<or> ((65::nat) \<le> of_char c \<and> of_char c \<le> (90::nat)))"

text \<open>A desktop Firefox on a 2560 x 1440 screen, German locale.\<close>

definition firefox_de :: fingerprint where
  "firefox_de =
     \<lparr>userAgent = ''Mozilla/5.0 (Windows NT 10.0; Win64; x64; rv:121.0) Gecko/20100101 Firefox/121.0'',
      language = ''de'', screen_width = 2560, screen_height = 1440\<rparr>"

definition empty_store :: local_storage where
  "empty_store = \<lparr>texts = Map.empty, docs = Map.empty, full = False\<rparr>"

section \<open>UserSession: activity log, nickname, user details\<close>

text \<open>
  A call either returns a value or throws; the state it leaves is kept beside the result,
  since what was assigned before a throw stays assigned.
\<close>

datatype 'a result = Returned 'a | Thrown error

text \<open>A nullable string as a value: \<open>null\<close> or the string.\<close>

definition nullable :: "string option \<Rightarrow> json" where
  "nullable x = (case x of None \<Rightarrow> JNull | Some s \<Rightarrow> JStr s)"

text \<open>The entry \<open>logActivity\<close> builds; \<open>now\<close> is \<open>new Date().toISOString()\<close>.\<close>

definition logEntry :: "user_session \<Rightarrow> string \<Rightarrow> string \<Rightarrow> json \<Rightarrow> json" where
  "logEntry us now action data =
     JObj [(''timestamp'', JStr now),
           (''userStamp'', JStr (stamp us)),
           (''nickname'', nullable (nickname us)),
           (''action'', JStr action),
           (''data'', data),
           (''sessionData'', sessionData us)]"

text \<open>
  \<open>logActivity\<close>: read the list (or \<open>[]\<close> for a falsy value), push the entry, cut the list to
  its last 1000 entries with \<open>splice(0, length - 1000)\<close>, write it back. \<open>push\<close> on a stored
  value that is truthy but not an array is a TypeError. The result of \<open>setItem\<close> is ignored.
\<close>

definition logActivity ::
  "user_session \<Rightarrow> local_storage \<Rightarrow> string \<Rightarrow> string \<Rightarrow> json \<Rightarrow> unit result \<times> local_storage" where
  "logActivity us ls now action data =
     (case or_else (getItem (storage us) ls ''logs._activity_logs'') (JArr []) of
        JArr logs \<Rightarrow>
          (let pushed = logs @ [logEntry us now action data];
               kept = (if length pushed > 1000 then drop (length pushed - 1000) pushed else pushed)
           in (Returned (), snd (setItem (storage us) ls ''logs._activity_logs'' (JArr kept))))
      | _ \<Rightarrow> (Thrown TypeError, ls))"

text \<open>
  Property access \<open>u.name\<close> on a value other than \<open>null\<close>: the property of an object (whose
  names are distinct, as \<open>JSON.parse\<close> builds it), \<open>undefined\<close> (\<open>None\<close>) otherwise.
\<close>

fun getProp :: "json \<Rightarrow> string \<Rightarrow> json option" where
  "getProp (JObj ps) name = map_of ps name"
| "getProp _ name = None"

text \<open>
  \<open>existingUsers.find(u => u.nickname === baseNick && u.stamp !== this.stamp)\<close>, as the
  truth of \<open>!\<close> applied to its result: the scan stops at the first match, and reading a
  property of a \<open>null\<close> element met before that is a TypeError.
\<close>

fun nicknameTaken :: "string \<Rightarrow> string \<Rightarrow> json list \<Rightarrow> bool result" where
  "nicknameTaken baseNick own [] = Returned False"
| "nicknameTaken baseNick own (u # us) =
     (if u = JNull then Thrown TypeError
      else if getProp u ''nickname'' = Some (JStr baseNick) \<and> getProp u ''stamp'' \<noteq> Some (JStr own)
      then Returned True
      else nicknameTaken baseNick own us)"

text \<open>
  \<open>ensureUniqueNickname\<close> reads the raw entry \<open>allUsers\<close> (no prefix, not through
  FileStorage): \<open>JSON.parse(localStorage.getItem('allUsers') || '[]')\<close>. A text that does
  not parse is a SyntaxError, a parsed value without \<open>find\<close> a TypeError.
\<close>

definition ensureUniqueNickname :: "user_session \<Rightarrow> local_storage \<Rightarrow> string \<Rightarrow> string result" where
  "ensureUniqueNickname us ls nick =
     (case (case docs ls ''allUsers'' of
              None \<Rightarrow> Returned (JArr [])
            | Some Blank \<Rightarrow> Returned (JArr [])
            | Some Garbled \<Rightarrow> Thrown SyntaxError
            | Some (Parsed v) \<Rightarrow> Returned v) of
        Thrown e \<Rightarrow> Thrown e
      | Returned (JArr existingUsers) \<Rightarrow>
          (case nicknameTaken (trim nick) (stamp us) existingUsers of
             Thrown e \<Rightarrow> Thrown e
           | Returned False \<Rightarrow> Returned (trim nick)
           | Returned True \<Rightarrow> Returned (trim nick @ ''#'' @ stamp us))
      | Returned _ \<Rightarrow> Thrown TypeError)"

text \<open>
  \<open>setNickname\<close>: the unique nickname is assigned to the session, then written to the raw
  entry \<open>userNickname\<close>, then shown in two elements of the page (which the static page has)
  and returned. Nothing else is read or written.
\<close>

definition setNickname ::
  "user_session \<Rightarrow> local_storage \<Rightarrow> string \<Rightarrow> string result \<times> user_session \<times> local_storage" where
  "setNickname us ls nick =
     (case ensureUniqueNickname us ls nick of
        Thrown e \<Rightarrow> (Thrown e, us, ls)
      | Returned uniqueNick \<Rightarrow>
          (case ls_setText ls ''userNickname'' uniqueNick of
             None \<Rightarrow> (Thrown QuotaExceededError, us\<lparr>nickname := Some uniqueNick\<rparr>, ls)
           | Some ls' \<Rightarrow> (Returned uniqueNick, us\<lparr>nickname := Some uniqueNick\<rparr>, ls')))"

text \<open>The own enumerable properties an object spread copies from a value.\<close>

fun ownProps :: "json \<Rightarrow> (string \<times> json) list" where
  "ownProps (JObj ps) = ps"
| "ownProps (JArr xs) = zip (map toString10 [0..<length xs]) xs"
| "ownProps (JStr s) = zip (map toString10 [0..<length s]) (map (\<lambda>c. JStr [c]) s)"
| "ownProps _ = []"

text \<open>Assigning a property: in place when the name exists, appended otherwise.\<close>

fun assignProp :: "(string \<times> json) list \<Rightarrow> string \<times> json \<Rightarrow> (string \<times> json) list" where
  "assignProp [] kv = [kv]"
| "assignProp (p # ps) kv = (if fst p = fst kv then kv # ps else p # assignProp ps kv)"

text \<open>\<open>{ ...a, ...b }\<close>.\<close>

definition spread2 :: "json \<Rightarrow> json \<Rightarrow> json" where
  "spread2 a b = JObj (foldl assignProp (foldl assignProp [] (ownProps a)) (ownProps b))"

text \<open>
  \<open>allUsers.findIndex(u => u.stamp === this.stamp)\<close>: the index of the first match, \<open>None\<close>
  for -1; a \<open>null\<close> element met before a match is a TypeError.
\<close>

fun findIndexStamp :: "string \<Rightarrow> json list \<Rightarrow> nat option result" where
  "findIndexStamp own [] = Returned None"
| "findIndexStamp own (u # us) =
     (if u = JNull then Thrown TypeError
      else if getProp u ''stamp'' = Some (JStr own) then Returned (Some 0)
      else (case findIndexStamp own us of
              Thrown e \<Rightarrow> Thrown e
            | Returned None \<Rightarrow> Returned None
            | Returned (Some i) \<Rightarrow> Returned (Some (Suc i))))"

text \<open>
  \<open>saveUserDetails\<close>: merge the details into the session's, write them to \<open>users.details\<close>,
  replace or append the caller's record in \<open>users.allUsers\<close>, log the call.
\<close>

definition saveUserDetails ::
  "user_session \<Rightarrow> local_storage \<Rightarrow> string \<Rightarrow> json \<Rightarrow> unit result \<times> user_session \<times> local_storage" where
  "saveUserDetails us ls now details =
     (let us1 = us\<lparr>userDetails := spread2 (userDetails us) details\<rparr>;
          ls1 = snd (setItem (storage us1) ls ''users.details'' (userDetails us1));
          userData = JObj [(''stamp'', JStr (stamp us1)),
                           (''nickname'', nullable (nickname us1)),
                           (''details'', userDetails us1),
                           (''lastActive'', JStr now)]
      in case or_else (getItem (storage us1) ls1 ''users.allUsers'') (JArr []) of
           JArr allUsers \<Rightarrow>
             (case findIndexStamp (stamp us1) allUsers of
                Thrown e \<Rightarrow> (Thrown e, us1, ls1)
              | Returned userIndex \<Rightarrow>
                  (let allUsers' = (case userIndex of
                                      Some i \<Rightarrow> allUsers[i := userData]
                                    | None \<Rightarrow> allUsers @ [userData]);
                       ls2 = snd (setItem (storage us1) ls1 ''users.allUsers'' (JArr allUsers'))
                   in case logActivity us1 ls2 now ''user_details_saved'' (JObj [(''details'', details)]) of
                        (Thrown e, ls3) \<Rightarrow> (Thrown e, us1, ls3)
                      | (Returned u, ls3) \<Rightarrow> (Returned (), us1, ls3)))
         | _ \<Rightarrow> (Thrown TypeError, us1, ls1))"

text \<open>
  A sequence of \<open>logActivity\<close> calls, each with the session as it is at that call, the
  clock reading, the action and the data; a throw ends the sequence.
\<close>

type_synonym log_call = "user_session \<times> string \<times> string \<times> json"

fun callEntry :: "log_call \<Rightarrow> json" where
  "callEntry (us, now, action, data) = logEntry us now action data"

fun logActivities :: "local_storage \<Rightarrow> log_call list \<Rightarrow> unit result \<times> local_storage" where
  "logActivities ls [] = (Returned (), ls)"
| "logActivities ls ((us, now, action, data) # cs) =
     (case logActivity us ls now action data of
        (Thrown e, ls') \<Rightarrow> (Thrown e, ls')
      | (Returned u, ls') \<Rightarrow> logActivities ls' cs)"

text \<open>The physical key of the activity log, and the last 1000 elements of a list.\<close>

definition logsKey :: string where
  "logsKey = storage_prefix @ ''logs._activity_logs''"

definition last1000 :: "'a list \<Rightarrow> 'a list" where
  "last1000 xs = drop (length xs - 1000) xs"

text \<open>A session of a first-time visitor with working storage, and its \<open>i\<close>-th logged call.\<close>

definition demo_session :: user_session where
  "demo_session =
     \<lparr>storage = \<lparr>enabled = True\<rparr>, stamp = ''8T35C'', nickname = None,
      userDetails = JObj [], sessionData = JObj []\<rparr>"

definition demo_call :: "nat \<Rightarrow> log_call" where
  "demo_call i = (demo_session, toString10 i, ''card_expanded'', JObj [])"

text \<open>
  Two identities with distinct stamps on one store. The first claims the nickname
  \<open>Alice\<close> and saves her details, which records her in \<open>users.allUsers\<close>;
  \<open>store_after_first\<close> is the store she leaves.
\<close>

definition first_session :: user_session where
  "first_session = demo_session\<lparr>stamp := ''A1B2C3''\<rparr>"

definition second_session :: user_session where
  "second_session = demo_session\<lparr>stamp := ''Z9Y8X7''\<rparr>"

definition store_after_first :: local_storage where
  "store_after_first =
     (case setNickname first_session empty_store ''Alice'' of
        (r, us1, ls1) \<Rightarrow>
          (case saveUserDetails us1 ls1 ''2024-01-05T10:00:00.000Z''
                  (JObj [(''email'', JStr ''alice@example.org'')]) of
             (r', us2, ls2) \<Rightarrow> ls2))"

section \<open>Seeding the example projects (project-functions module)\<close>

text \<open>
  The built-in list \<open>projects\<close>, with the fields \<open>populateExampleProjects\<close> copies (it does
  not read \<open>rating\<close>, \<open>comments\<close> and \<open>forks\<close>).
\<close>

record example_project =
  project_id :: nat
  title :: string
  description :: string
  host :: string
  url :: string
  category :: string

definition projects :: "example_project list" where
  "projects =
     [\<lparr>project_id = 1, title = ''AI-Powered Code Generator'',
       description = ''Revolutionary tool that generates production-ready code from natural language descriptions.'',
       host = ''GitHub'', url = ''https://github.com/shekhrd/ai-code-gen'', category = ''AI/ML''\<rparr>,
      \<lparr>project_id = 2, title = ''Quantum Visualization Engine'',
       description = ''Interactive 3D visualization of quantum mechanics concepts for education and research.'',
       host = ''InfinityFree'', url = ''https://quantum-viz.infinityfree.net'', category = ''Visualization''\<rparr>,
      \<lparr>project_id = 3, title = ''Blockchain Social Network'',
       description = ''Decentralized social platform built on blockchain technology with privacy-first approach.'',
       host = ''IndieCloud'', url = ''https://social.indiecloud.co/shekhrd'', category = ''Blockchain''\<rparr>,
      \<lparr>project_id = 4, title = ''Neural Network Playground'',
       description = ''Interactive environment for experimenting with neural network architectures in real-time.'',
       host = ''GitHub'', url = ''https://github.com/shekhrd/neural-playground'', category = ''AI/ML''\<rparr>]"

text \<open>The storage format of one example project; \<open>now\<close> is \<open>new Date().toISOString()\<close>.\<close>

definition exampleProject :: "string \<Rightarrow> example_project \<Rightarrow> json" where
  "exampleProject now project =
     JObj [(''id'', JNum (int (project_id project))),
           (''title'', JStr (title project)),
           (''description'', JStr (description project)),
           (''host'', JStr (host project)),
           (''url'', JStr (url project)),
           (''category'', JStr (category project)),
           (''timestamp'', JStr now),
           (''author'', JStr ''System''),
           (''stamp'', JStr ''SYSTEM'')]"

text \<open>\<open>x.length === 0\<close>: arrays and strings have a length, other values \<open>undefined\<close>.\<close>

fun lengthIsZero :: "json \<Rightarrow> bool" where
  "lengthIsZero (JArr xs) = (length xs = 0)"
| "lengthIsZero (JStr s) = (length s = 0)"
| "lengthIsZero _ = False"

text \<open>
  \<open>populateExampleProjects\<close>: when \<open>projects.allProjects\<close> reads as an empty list, write
  the examples there and write \<open>logs._activity_logs\<close>; otherwise nothing. The log is written
  with \<open>setItem\<close> and a one-element array literal.
\<close>

definition populateExampleProjects :: "file_storage \<Rightarrow> local_storage \<Rightarrow> string \<Rightarrow> local_storage" where
  "populateExampleProjects fs ls now =
     (let existingProjects = or_else (getItem fs ls ''projects.allProjects'') (JArr [])
      in if lengthIsZero existingProjects
         then (let exampleProjects = map (exampleProject now) projects;
                   ls1 = snd (setItem fs ls ''projects.allProjects'' (JArr exampleProjects))
               in snd (setItem fs ls1 ''logs._activity_logs''
                    (JArr [JObj [(''action'', JStr ''system_populate_examples''),
                                 (''timestamp'', JStr now),
                                 (''details'', JStr (''Populated '' @ toString10 (length exampleProjects)
                                                     @ '' example projects to storage''))]])))
         else ls)"

text \<open>
  The store of a first visit after the session's constructor has logged
  \<open>session_initialized\<close>, before any project is stored.
\<close>

definition store_after_init :: local_storage where
  "store_after_init =
     snd (logActivity demo_session empty_store ''2024-01-05T10:00:00.000Z'' ''session_initialized''
            (JObj [(''isReturningUser'', JBool False), (''hasNickname'', JBool False)]))"

section \<open>Storage initialisation on page load (project-functions module)\<close>

text \<open>
  \<open>storageStructure\<close> of \<open>initializeStorageFiles\<close>: one object per namespace, in the order
  of the literal.
\<close>

definition storageStructure :: "(string \<times> json) list" where
  "storageStructure =
     [(''users'', JObj [(''nickname'', JStr []), (''userDetails'', JNull), (''userStamp'', JNull),
                        (''lastVisit'', JNull), (''allUsers'', JArr [])]),
      (''projects'', JObj [(''userProjects'', JArr [])]),
      (''comments'', JObj []),
      (''ratings'', JObj []),
      (''logs'', JObj [(''_activity_logs'', JArr [])]),
      (''clicks'', JObj [])]"

text \<open>The key the loop builds for a namespace.\<close>

definition fileKey :: "string \<Rightarrow> string" where
  "fileKey key =
     key @ ''.'' @ (if key = ''users'' then ''users''
                    else if key = ''projects'' then ''userProjects''
                    else if key = ''logs'' then ''_activity_logs''
                    else [])"

text \<open>
  \<open>initializeStorageFiles\<close>: for each namespace, if \<open>getItem(fileKey)\<close> is falsy, the
  namespace's whole object \<open>data\<close> is stored under \<open>fileKey\<close>. \<open>main.js\<close> awaits it on every
  page load, before the first \<open>loadProjects\<close>.
\<close>

definition initializeStorageFiles :: "file_storage \<Rightarrow> local_storage \<Rightarrow> local_storage" where
  "initializeStorageFiles fs ls =
     foldl (\<lambda>ls' entry.
              if \<not> truthy (getItem fs ls' (fileKey (fst entry)))
              then snd (setItem fs ls' (fileKey (fst entry)) (snd entry))
              else ls')
       ls storageStructure"

section \<open>Configuration and the rate-limit tracker (config.js)\<close>

definition MAX_COMMENT_LENGTH :: nat where "MAX_COMMENT_LENGTH = 500"
definition COMMENT_COOLDOWN :: int where "COMMENT_COOLDOWN = 3000"
definition RATING_COOLDOWN :: int where "RATING_COOLDOWN = 1000"
definition PROJECT_COOLDOWN :: int where "PROJECT_COOLDOWN = 5000"

text \<open>\<open>window.rateLimitTracker\<close>: epoch milliseconds, all 0 when the page loads.\<close>

record rate_limit_tracker =
  lastCommentTime :: int
  lastRatingTime :: int
  lastProjectTime :: int

text \<open>The state the event handlers work on.\<close>

record app =
  session :: user_session
  store :: local_storage
  tracker :: rate_limit_tracker

text \<open>
  What a handler reads from the clock: \<open>Date.now()\<close> at its rate check, the later
  \<open>Date.now()\<close> (the comment handler's second reading, the project handler's \<open>id\<close>), and
  \<open>new Date().toISOString()\<close>.
\<close>

record clock =
  date_now :: int
  date_now_later :: int
  iso_now :: string

text \<open>
  How a handler ends: with messages about invalid input, with the rate-limit alert and its
  remaining time in milliseconds, by running to the tracker update, or in its \<open>catch\<close>.
\<close>

datatype outcome = Invalid "string list" | RateLimited int | Completed | Failed error

section \<open>sanitizeInput (utils.js)\<close>

text \<open>The replacement of one character by \<open>entityMap\<close>; \<open>0x22\<close> is the double quote, \<open>0x27\<close>
  the single quote.\<close>

definition entityMap :: "char \<Rightarrow> string" where
  "entityMap c =
     (if c = CHR ''<'' then ''&lt;''
      else if c = CHR ''>'' then ''&gt;''
      else if c = CHR 0x22 then ''&quot;''
      else if c = CHR 0x27 then ''&#39;''
      else if c = CHR ''&'' then ''&amp;''
      else [c])"

text \<open>\<open>input.replace(/[<>"'&]/g, ...)\<close> on a string.\<close>

definition sanitizeInput :: "string \<Rightarrow> string" where
  "sanitizeInput input = concat (map entityMap input)"

text \<open>
  A text is escaped when it has none of the characters \<open><\<close>, \<open>>\<close>, double quote and single
  quote, and every \<open>&\<close> in it starts one of the five entities.
\<close>

definition entityTails :: "string list" where
  "entityTails = [''lt;'', ''gt;'', ''quot;'', ''#39;'', ''amp;'']"

fun escaped :: "string \<Rightarrow> bool" where
  "escaped [] = True"
| "escaped (c # cs) =
     (if c = CHR ''<'' \<or> c = CHR ''>'' \<or> c = CHR 0x22 \<or> c = CHR 0x27 then False
      else if c = CHR ''&'' then list_ex (\<lambda>t. take (length t) cs = t) entityTails \<and> escaped cs
      else escaped cs)"

text \<open>
  The claim's words, to compare \<open>sanitizeInput\<close> with: each of the characters \<open><\<close>,
  \<open>>\<close>, double quote, single quote and \<open>&\<close> is replaced by its HTML entity, and every
  other character is kept.
\<close>

primrec withEntities :: "string \<Rightarrow> string" where
  "withEntities [] = []"
| "withEntities (c # cs) =
     (if c = CHR ''<'' then ''&lt;'' @ withEntities cs
      else if c = CHR ''>'' then ''&gt;'' @ withEntities cs
      else if c = CHR 0x22 then ''&quot;'' @ withEntities cs
      else if c = CHR 0x27 then ''&#39;'' @ withEntities cs
      else if c = CHR ''&'' then ''&amp;'' @ withEntities cs
      else c # withEntities cs)"

text \<open>
  Reading a text as a browser does when it renders it: each of the five entities stands
  for its character, every other character for itself.
\<close>

function decodeEntities :: "string \<Rightarrow> string" where
  "decodeEntities [] = []"
| "decodeEntities (c # cs) =
     (if c = CHR ''&'' \<and> take 3 cs = ''lt;'' then CHR ''<'' # decodeEntities (drop 3 cs)
      else if c = CHR ''&'' \<and> take 3 cs = ''gt;'' then CHR ''>'' # decodeEntities (drop 3 cs)
      else if c = CHR ''&'' \<and> take 5 cs = ''quot;'' then CHR 0x22 # decodeEntities (drop 5 cs)
      else if c = CHR ''&'' \<and> take 4 cs = ''#39;'' then CHR 0x27 # decodeEntities (drop 4 cs)
      else if c = CHR ''&'' \<and> take 4 cs = ''amp;'' then CHR ''&'' # decodeEntities (drop 4 cs)
      else c # decodeEntities cs)"
  by pat_completeness auto
termination
  by (relation "measure length") auto

section \<open>addComment (comment-functions module)\<close>

text \<open>
  \<open>addComment(projectId, textarea)\<close>. \<open>nickname_text\<close> is the text of the element
  \<open>nickname_<projectId>\<close>, \<open>None\<close> when the page has no such element (reading \<open>textContent\<close>
  of \<open>null\<close> throws inside the \<open>try\<close>). The order is the source's: sanitise, validate, rate
  check, nickname, read-push-write of the comment list, activity log, tracker. After the
  tracker update the handler only redraws the page, which changes none of the state here.
\<close>

definition addComment ::
  "app \<Rightarrow> fingerprint \<Rightarrow> clock \<Rightarrow> nat \<Rightarrow> string \<Rightarrow> string option \<Rightarrow> outcome \<times> app" where
  "addComment a fp clk projectId textarea_value nickname_text =
     (let commentText = sanitizeInput (trim textarea_value)
      in case nickname_text of
           None \<Rightarrow> (Failed TypeError, a)
         | Some t \<Rightarrow>
             (let nick = sanitizeInput (trim t)
              in if commentText = [] then (Invalid [''Please enter a comment''], a)
                 else if length commentText > MAX_COMMENT_LENGTH
                 then (Invalid [''Comment must not exceed '' @ toString10 MAX_COMMENT_LENGTH
                                @ '' characters''], a)
                 else if date_now clk - lastCommentTime (tracker a) < COMMENT_COOLDOWN
                 then (RateLimited (COMMENT_COOLDOWN - (date_now clk - lastCommentTime (tracker a))), a)
                 else
                   (case (if nick \<noteq> [] \<and> Some nick \<noteq> nickname (session a)
                          then setNickname (session a) (store a) nick
                          else (Returned nick, session a, store a)) of
                      (Thrown e, us1, ls1) \<Rightarrow> (Failed e, a\<lparr>session := us1, store := ls1\<rparr>)
                    | (Returned r, us1, ls1) \<Rightarrow>
                        (let comment = JObj [(''author'', JStr nick),
                                             (''stamp'', JStr (stamp us1)),
                                             (''text'', JStr commentText),
                                             (''timestamp'', JStr (iso_now clk))];
                             key = ''comments.'' @ toString10 projectId
                         in case or_else (getItem (storage us1) ls1 key) (JArr []) of
                              JArr comments \<Rightarrow>
                                (let ls2 = snd (setItem (storage us1) ls1 key (JArr (comments @ [comment])))
                                 in case logActivity us1 ls2 (iso_now clk) ''comment_added''
                                           (JObj [(''projectId'', JNum (int projectId)),
                                                  (''commentLength'', JNum (int (length commentText))),
                                                  (''hasNickname'', JBool (nick \<noteq> [])),
                                                  (''nickname'', JStr nick),
                                                  (''userAgent'', JStr (userAgent fp)),
                                                  (''timestamp'', JStr (iso_now clk))]) of
                                      (Thrown e, ls3) \<Rightarrow> (Failed e, a\<lparr>session := us1, store := ls3\<rparr>)
                                    | (Returned u, ls3) \<Rightarrow>
                                        (Completed,
                                         a\<lparr>session := us1, store := ls3,
                                           tracker := (tracker a)\<lparr>lastCommentTime := date_now_later clk\<rparr>\<rparr>))
                            | _ \<Rightarrow> (Failed TypeError, a\<lparr>session := us1, store := ls1\<rparr>)))))"

section \<open>rateProject (rating-functions.js)\<close>

text \<open>
  \<open>rateProject(projectId, rating)\<close>: the rate check comes first, before the \<open>try\<close>; the
  tracker takes the reading of the check.
\<close>

definition rateProject :: "app \<Rightarrow> clock \<Rightarrow> nat \<Rightarrow> int \<Rightarrow> outcome \<times> app" where
  "rateProject a clk projectId rating =
     (if date_now clk - lastRatingTime (tracker a) < RATING_COOLDOWN
      then (RateLimited (RATING_COOLDOWN - (date_now clk - lastRatingTime (tracker a))), a)
      else
        (let us = session a; key = ''ratings.'' @ toString10 projectId
         in case or_else (getItem (storage us) (store a) key) (JArr []) of
              JArr ratings \<Rightarrow>
                (let ls1 = snd (setItem (storage us) (store a) key (JArr (ratings @ [JNum rating])))
                 in case logActivity us ls1 (iso_now clk) ''project_rated''
                           (JObj [(''projectId'', JNum (int projectId)),
                                  (''rating'', JNum rating),
                                  (''totalRatings'', JNum (int (length (ratings @ [JNum rating]))))]) of
                      (Thrown e, ls2) \<Rightarrow> (Failed e, a\<lparr>store := ls2\<rparr>)
                    | (Returned u, ls2) \<Rightarrow>
                        (Completed,
                         a\<lparr>store := ls2, tracker := (tracker a)\<lparr>lastRatingTime := date_now clk\<rparr>\<rparr>))
            | _ \<Rightarrow> (Failed TypeError, a)))"

section \<open>Project submission (utils.js, main.js)\<close>

text \<open>
  \<open>validateProjectData\<close> on the object the submit handler builds, which has \<open>title\<close>,
  \<open>description\<close>, \<open>tags\<close> and \<open>link\<close> (\<open>None\<close> for \<open>undefined\<close>) and neither \<open>demo\<close> nor
  \<open>github\<close>. \<open>isValidUrl\<close> is whether the browser's \<open>URL\<close> constructor accepts the text, a
  parameter here. The result is the list \<open>errors\<close>; \<open>isValid\<close> is its emptiness.
\<close>

definition validateProjectData ::
  "(string \<Rightarrow> bool) \<Rightarrow> string \<Rightarrow> string \<Rightarrow> string list \<Rightarrow> string option \<Rightarrow> string list" where
  "validateProjectData isValidUrl ptitle pdescription tags link =
     (if ptitle = [] \<or> length (trim ptitle) < 3 then [''Title must be at least 3 characters''] else [])
     @ (if pdescription = [] \<or> length (trim pdescription) < 10
        then [''Description must be at least 10 characters''] else [])
     @ (if length tags = 0 then [''At least one tag is required''] else [])
     @ (if length tags > 10 then [''Maximum 10 tags allowed''] else [])
     @ (case link of
          None \<Rightarrow> []
        | Some l \<Rightarrow> if l \<noteq> [] \<and> \<not> isValidUrl l then [''Project link must be a valid URL''] else [])"

text \<open>The values of the form's fields.\<close>

record project_form =
  projectTitle :: string
  projectDesc :: string
  projectUrl :: string
  userEmail :: string
  userNick :: string

text \<open>
  The submit handler of \<open>userProjectForm\<close>: validation, then the rate check, then inside the
  \<open>try\<close> the nickname, the user details (only with an email), the read-push-write of
  \<open>projects.userProjects\<close>, the activity log, clearing the form (its elements exist when the
  form does) and the tracker, which takes the reading of the check.
\<close>

definition userProjectForm_submit ::
  "(string \<Rightarrow> bool) \<Rightarrow> app \<Rightarrow> fingerprint \<Rightarrow> clock \<Rightarrow> project_form \<Rightarrow> outcome \<times> app" where
  "userProjectForm_submit isValidUrl a fp clk form =
     (let ptitle = trim (projectTitle form);
          pdescription = trim (projectDesc form);
          link = trim (projectUrl form);
          email = trim (userEmail form);
          nick = trim (userNick form);
          tags = [''user-submitted''];
          errors = validateProjectData isValidUrl ptitle pdescription tags
                     (if link \<noteq> [] then Some link else None)
      in if errors \<noteq> [] then (Invalid errors, a)
         else if date_now clk - lastProjectTime (tracker a) < PROJECT_COOLDOWN
         then (RateLimited (PROJECT_COOLDOWN - (date_now clk - lastProjectTime (tracker a))), a)
         else
           (case (if nick \<noteq> [] \<and> Some nick \<noteq> nickname (session a)
                  then setNickname (session a) (store a) nick
                  else (Returned nick, session a, store a)) of
              (Thrown e, us1, ls1) \<Rightarrow> (Failed e, a\<lparr>session := us1, store := ls1\<rparr>)
            | (Returned r, us1, ls1) \<Rightarrow>
                (let enhancedUserDetails =
                       JObj [(''email'', if email \<noteq> [] then JStr email else JNull),
                             (''timestamp'', JStr (iso_now clk)),
                             (''userAgent'', JStr (userAgent fp)),
                             (''language'', JStr (language fp)),
                             (''screen'', JObj [(''width'', JNum (int (screen_width fp))),
                                                (''height'', JNum (int (screen_height fp)))])]
                 in case (if email \<noteq> []
                          then saveUserDetails us1 ls1 (iso_now clk) enhancedUserDetails
                          else (Returned (), us1, ls1)) of
                      (Thrown e, us2, ls2) \<Rightarrow> (Failed e, a\<lparr>session := us2, store := ls2\<rparr>)
                    | (Returned u, us2, ls2) \<Rightarrow>
                        (let project =
                               JObj [(''id'', JNum (date_now_later clk)),
                                     (''title'', JStr ptitle),
                                     (''description'', JStr pdescription),
                                     (''tags'', JArr (map JStr tags)),
                                     (''link'', if link \<noteq> [] then JStr link else JNull),
                                     (''author'', JStr (case nickname us2 of
                                                          None \<Rightarrow> ''Anonymous''
                                                        | Some n \<Rightarrow> if n \<noteq> [] then n else ''Anonymous'')),
                                     (''authorStamp'', JStr (stamp us2)),
                                     (''timestamp'', JStr (iso_now clk)),
                                     (''type'', JStr ''user''),
                                     (''userDetails'', enhancedUserDetails)]
                         in case or_else (getItem (storage us2) ls2 ''projects.userProjects'') (JArr []) of
                              JArr userProjects \<Rightarrow>
                                (let ls3 = snd (setItem (storage us2) ls2 ''projects.userProjects''
                                                  (JArr (userProjects @ [project])))
                                 in case logActivity us2 ls3 (iso_now clk) ''project_shared''
                                           (JObj [(''projectId'', JNum (date_now_later clk)),
                                                  (''title'', JStr ptitle),
                                                  (''hasEmail'', JBool (email \<noteq> [])),
                                                  (''enhancedDetails'', enhancedUserDetails),
                                                  (''timestamp'', JStr (iso_now clk))]) of
                                      (Thrown e, ls4) \<Rightarrow> (Failed e, a\<lparr>session := us2, store := ls4\<rparr>)
                                    | (Returned u', ls4) \<Rightarrow>
                                        (Completed,
                                         a\<lparr>session := us2, store := ls4,
                                           tracker := (tracker a)\<lparr>lastProjectTime := date_now clk\<rparr>\<rparr>))
                            | _ \<Rightarrow> (Failed TypeError, a\<lparr>session := us2, store := ls2\<rparr>)))))"

section \<open>Stored values a handler can work with\<close>

text \<open>
  \<open>readsAsList v\<close>: the handler's \<open>v || []\<close> is an array, so \<open>push\<close> works.
  \<open>readsAsRecords v\<close>: moreover no element is \<open>null\<close>, so \<open>findIndex\<close> can read \<open>u.stamp\<close>
  of each.
\<close>

definition readsAsList :: "json \<Rightarrow> bool" where
  "readsAsList v = (case or_else v (JArr []) of JArr xs \<Rightarrow> True | _ \<Rightarrow> False)"

definition readsAsRecords :: "json \<Rightarrow> bool" where
  "readsAsRecords v = (case or_else v (JArr []) of JArr xs \<Rightarrow> list_all (\<lambda>u. u \<noteq> JNull) xs | _ \<Rightarrow> False)"

text \<open>
  A page whose last comment, rating and project were all accepted at the instant
  \<open>1700000000000\<close>, and the clock of a handler that runs \<open>ms\<close> milliseconds after it.
\<close>

definition demo_app :: app where
  "demo_app =
     \<lparr>session = demo_session, store = empty_store,
      tracker = \<lparr>lastCommentTime = 1700000000000, lastRatingTime = 1700000000000,
                 lastProjectTime = 1700000000000\<rparr>\<rparr>"

definition demo_clock :: "int \<Rightarrow> clock" where
  "demo_clock ms =
     \<lparr>date_now = 1700000000000 + ms, date_now_later = 1700000000000 + ms + 7,
      iso_now = ''2023-11-14T22:13:20.000Z''\<rparr>"

definition demo_form :: project_form where
  "demo_form =
     \<lparr>projectTitle = ''Tide tables'', projectDesc = ''Tide predictions for small harbours'',
      projectUrl = [], userEmail = ''alice@example.org'', userNick = ''Alice''\<rparr>"

section \<open>Grouping comments (utils/date-formater.js)\<close>

text \<open>A stored comment, as \<open>addComment\<close> writes it.\<close>

record comment =
  author :: string
  comment_stamp :: string
  comment_text :: string
  timestamp :: string

text \<open>A group of \<open>groupCommentsByDateAndUser\<close>: \<open>{date, author, stamp, comments}\<close>.\<close>

record comment_group =
  date :: string
  group_author :: string
  group_stamp :: string
  comments :: "comment list"

text \<open>The key of a comment in the object \<open>groups\<close>: \<open>`${date}-${comment.author}-${comment.stamp}`\<close>.\<close>

definition groupKey :: "string \<Rightarrow> string \<Rightarrow> string \<Rightarrow> string" where
  "groupKey d a s = d @ ''-'' @ a @ ''-'' @ s"

text \<open>
  One round of the \<open>forEach\<close>. \<open>groups\<close> is the object as the list of its properties in
  insertion order (a key holds two hyphens, so it is never an array index and never the
  name of an inherited property). \<open>formatDate\<close> is the module's function of that name at
  its default format: what \<open>toLocaleDateString('en-US', ...)\<close> makes of the time stamp in the
  viewer's time zone; it is a parameter.
\<close>

definition groupStep ::
  "(string \<Rightarrow> string) \<Rightarrow> (string \<times> comment_group) list \<Rightarrow> comment \<Rightarrow> (string \<times> comment_group) list" where
  "groupStep formatDate groups c =
     (let d = formatDate (timestamp c);
          key = groupKey d (author c) (comment_stamp c)
      in if map_of groups key = None
         then groups @ [(key, \<lparr>date = d, group_author = author c,
                               group_stamp = comment_stamp c, comments = [c]\<rparr>)]
         else map (\<lambda>kg. if fst kg = key
                          then (fst kg, (snd kg)\<lparr>comments := comments (snd kg) @ [c]\<rparr>)
                          else kg) groups)"

text \<open>
  The comparator of the final \<open>sort\<close>. \<open>dateValue\<close> is the time value of \<open>new Date(text)\<close>,
  \<open>None\<close> for an invalid date, whose \<open>NaN\<close> makes the comparator return \<open>NaN\<close>, which
  \<open>sort\<close> reads as 0; \<open>localeCompare\<close> is the browser's string collation. Both are
  parameters.
\<close>

definition compareGroups ::
  "(string \<Rightarrow> int option) \<Rightarrow> (string \<Rightarrow> string \<Rightarrow> int) \<Rightarrow> comment_group \<Rightarrow> comment_group \<Rightarrow> int" where
  "compareGroups dateValue localeCompare a b =
     (case (dateValue (date b), dateValue (date a)) of
        (Some vb, Some va) \<Rightarrow>
          if vb - va \<noteq> 0 then vb - va else localeCompare (group_author a) (group_author b)
      | _ \<Rightarrow> 0)"

text \<open>
  \<open>Array.prototype.sort\<close> is stable; for a consistent comparator its result is the stable
  sorted order, which insertion from the right computes.
\<close>

fun insertBy :: "('a \<Rightarrow> 'a \<Rightarrow> int) \<Rightarrow> 'a \<Rightarrow> 'a list \<Rightarrow> 'a list" where
  "insertBy cmp x [] = [x]"
| "insertBy cmp x (y # ys) = (if cmp x y \<le> 0 then x # y # ys else y # insertBy cmp x ys)"

definition sortBy :: "('a \<Rightarrow> 'a \<Rightarrow> int) \<Rightarrow> 'a list \<Rightarrow> 'a list" where
  "sortBy cmp xs = foldr (insertBy cmp) xs []"

definition groupCommentsByDateAndUser ::
  "(string \<Rightarrow> string) \<Rightarrow> (string \<Rightarrow> int option) \<Rightarrow> (string \<Rightarrow> string \<Rightarrow> int)
     \<Rightarrow> comment list \<Rightarrow> comment_group list" where
  "groupCommentsByDateAndUser formatDate dateValue localeCompare cs =
     sortBy (compareGroups dateValue localeCompare) (map snd (foldl (groupStep formatDate) [] cs))"

text \<open>
  The grouping key the claim names, and the order it names: later date first, equal dates
  by the collation of the authors.
\<close>

definition keyTriple :: "(string \<Rightarrow> string) \<Rightarrow> comment \<Rightarrow> string \<times> string \<times> string" where
  "keyTriple formatDate c = (formatDate (timestamp c), author c, comment_stamp c)"

definition groupTriple :: "comment_group \<Rightarrow> string \<times> string \<times> string" where
  "groupTriple g = (date g, group_author g, group_stamp g)"

definition comesBefore ::
  "(string \<Rightarrow> int option) \<Rightarrow> (string \<Rightarrow> string \<Rightarrow> int) \<Rightarrow> comment_group \<Rightarrow> comment_group \<Rightarrow> bool" where
  "comesBefore dateValue localeCompare g h =
     (case (dateValue (date g), dateValue (date h)) of
        (Some vg, Some vh) \<Rightarrow> vh < vg \<or> (vh = vg \<and> localeCompare (group_author g) (group_author h) \<le> 0)
      | _ \<Rightarrow> False)"

text \<open>
  Comments as the program stores them and dates as \<open>formatDate\<close> prints them: no hyphen in
  a stamp (base-36 text) or in a printed date (\<open>Jan 5, 2024\<close>), and every printed date is
  one \<open>new Date\<close> reads back.
\<close>

definition wellFormedComment :: "(string \<Rightarrow> string) \<Rightarrow> (string \<Rightarrow> int option) \<Rightarrow> comment \<Rightarrow> bool" where
  "wellFormedComment formatDate dateValue c =
     (CHR ''-'' \<notin> set (comment_stamp c)
      \<and> CHR ''-'' \<notin> set (formatDate (timestamp c))
      \<and> dateValue (formatDate (timestamp c)) \<noteq> None)"

text \<open>A collation is a total preorder, read off the sign of \<open>localeCompare\<close>.\<close>

definition collation :: "(string \<Rightarrow> string \<Rightarrow> int) \<Rightarrow> bool" where
  "collation localeCompare =
     ((\<forall>x y. localeCompare x y \<le> 0 \<or> localeCompare y x \<le> 0)
      \<and> (\<forall>x y z. localeCompare x y \<le> 0 \<and> localeCompare y z \<le> 0 \<longrightarrow> localeCompare x z \<le> 0))"

definition commentKey :: "(string \<Rightarrow> string) \<Rightarrow> comment \<Rightarrow> string" where
  "commentKey formatDate c = groupKey (formatDate (timestamp c)) (author c) (comment_stamp c)"

text \<open>
  The state of the object \<open>groups\<close> after the comments \<open>xs\<close>: distinct keys, under each key
  the comments with that key in their order and the triple of one of them, and a key for
  every comment.
\<close>

definition groupsOf :: "(string \<Rightarrow> string) \<Rightarrow> comment list \<Rightarrow> (string \<times> comment_group) list \<Rightarrow> bool" where
  "groupsOf fmt xs G =
     (distinct (map fst G)
      \<and> (\<forall>kg\<in>set G. comments (snd kg) = filter (\<lambda>c. commentKey fmt c = fst kg) xs
                      \<and> (\<exists>c\<in>set xs. commentKey fmt c = fst kg \<and> groupTriple (snd kg) = keyTriple fmt c))
      \<and> (\<forall>c\<in>set xs. commentKey fmt c \<in> fst ` set G))"

text \<open>
  A viewer for the examples: dates printed as \<open>2024/01/05\<close> from the day part of the time
  stamp and read back as the number their digits spell. \<open>compareCodes\<close> is the
  lexicographic order of the character codes, the order of \<open><\<close> on JavaScript strings.
\<close>

definition demo_formatDate :: "string \<Rightarrow> string" where
  "demo_formatDate ts = map (\<lambda>c. if c = CHR ''-'' then CHR ''/'' else c) (take 10 ts)"

definition demo_dateValue :: "string \<Rightarrow> int option" where
  "demo_dateValue d =
     Some (foldl (\<lambda>n c. 10 * n + (int (of_char c) - 48)) 0
             (filter (\<lambda>c. (48::nat) \<le> of_char c \<and> of_char c \<le> (57::nat)) d))"

fun compareNats :: "nat list \<Rightarrow> nat list \<Rightarrow> int" where
  "compareNats [] [] = 0"
| "compareNats [] (y # ys) = - 1"
| "compareNats (x # xs) [] = 1"
| "compareNats (x # xs) (y # ys) =
     (if x < y then - 1 else if y < x then 1 else compareNats xs ys)"

definition compareCodes :: "string \<Rightarrow> string \<Rightarrow> int" where
  "compareCodes a b = compareNats (map of_char a) (map of_char b)"

definition demo_comments :: "comment list" where
  "demo_comments =
     [\<lparr>author = ''bob'', comment_stamp = ''8T35C'', comment_text = ''first'',
       timestamp = ''2024-01-05T10:00:00.000Z''\<rparr>,
      \<lparr>author = ''alice'', comment_stamp = ''A1B2C3'', comment_text = ''second'',
       timestamp = ''2024-01-06T09:00:00.000Z''\<rparr>,
      \<lparr>author = ''bob'', comment_stamp = ''8T35C'', comment_text = ''third'',
       timestamp = ''2024-01-05T11:00:00.000Z''\<rparr>,
      \<lparr>author = ''alice'', comment_stamp = ''A1B2C3'', comment_text = ''fourth'',
       timestamp = ''2024-01-05T12:00:00.000Z''\<rparr>]"

text \<open>
  \<open>String.prototype.localeCompare\<close> belongs to the browser, not to the repository. Called
  with one argument it uses the collation of the default locale; for names of ASCII letters
  the English and the root collation agree: alphabetical without regard to case, and of two
  names that differ in case only the one with the lower-case letter at the first difference
  comes first (\<open>bob\<close>, \<open>Bob\<close>, \<open>Zed\<close>). \<open>localeCompare_en\<close> is that order on such names.
\<close>

definition lower_code :: "char \<Rightarrow> nat" where
  "lower_code c =
     (if (65::nat) \<le> of_char c \<and> of_char c \<le> (90::nat) then of_char c + 32 else of_char c)"

definition localeCompare_en :: "string \<Rightarrow> string \<Rightarrow> int" where
  "localeCompare_en a b =
     (if compareNats (map lower_code a) (map lower_code b) \<noteq> 0
      then compareNats (map lower_code a) (map lower_code b)
      else compareNats (map of_char b) (map of_char a))"

text \<open>Two comments of one day, by \<open>Zed\<close> and then by \<open>bob\<close>.\<close>

definition zed_bob_comments :: "comment list" where
  "zed_bob_comments =
     [\<lparr>author = ''Zed'', comment_stamp = ''A1B2C3'', comment_text = ''first'',
       timestamp = ''2024-01-05T10:00:00.000Z''\<rparr>,
      \<lparr>author = ''bob'', comment_stamp = ''8T35C'', comment_text = ''second'',
       timestamp = ''2024-01-05T11:00:00.000Z''\<rparr>]"

section \<open>getAverageRating (rating-functions.js)\<close>

text \<open>
  The ratings are whole numbers (the stars 1 to 5 that \<open>rateProject\<close> pushes), so
  \<open>reduce\<close> computes their sum exactly as long as it stays below \<open>2 ^ 53\<close>, and the
  length is exact. The quotient \<open>sum / length\<close> is a double: the real quotient rounded to
  53 significant bits, ties to even. For \<open>0 < s < 2 ^ 53\<close> and \<open>0 < n\<close>, \<open>scaleExp s n 0\<close>
  is the least \<open>k\<close> with \<open>2 ^ 52 \<le> s * 2 ^ k / n\<close>, and the double is
  \<open>mantissa / 2 ^ k\<close> with \<open>mantissa = roundHalfEven (s * 2 ^ k) n\<close>.
\<close>

definition roundHalfEven :: "nat \<Rightarrow> nat \<Rightarrow> nat" where
  "roundHalfEven N n =
     (let a = N div n; r = N mod n
      in if 2 * r < n then a
         else if n < 2 * r then a + 1
         else if even a then a else a + 1)"

function scaleExp :: "nat \<Rightarrow> nat \<Rightarrow> nat \<Rightarrow> nat" where
  "scaleExp s n k = (if s = 0 \<or> n * 2 ^ 52 \<le> s * 2 ^ k then k else scaleExp s n (Suc k))"
  by pat_completeness auto
termination
proof (relation "measure (\<lambda>(s, n, k). n * 2 ^ 52 - s * 2 ^ k)")
  show "wf (measure (\<lambda>(s, n, k). n * 2 ^ 52 - s * 2 ^ k))" by simp
next
  fix s n k :: nat
  assume "\<not> (s = 0 \<or> n * 2 ^ 52 \<le> s * 2 ^ k)"
  then have "0 < s * 2 ^ k" and "s * 2 ^ k < n * 2 ^ 52" by simp_all
  then have "n * 2 ^ 52 - 2 * (s * 2 ^ k) < n * 2 ^ 52 - s * 2 ^ k" by arith
  moreover have "s * 2 ^ Suc k = 2 * (s * 2 ^ k)" by simp
  ultimately have "n * 2 ^ 52 - s * 2 ^ Suc k < n * 2 ^ 52 - s * 2 ^ k" by (simp only:)
  then show "((s, n, Suc k), (s, n, k)) \<in> measure (\<lambda>(s, n, k). n * 2 ^ 52 - s * 2 ^ k)"
    by simp
qed

declare scaleExp.simps [simp del]

text \<open>
  \<open>x.toFixed(1)\<close> for the double \<open>x = m / 2 ^ k\<close>: the integer \<open>t\<close> for which \<open>t / 10\<close> is
  nearest to \<open>x\<close>, the larger one of two, is \<open>floor (10 * x + 1 / 2)\<close>; the text is the
  digits of \<open>t\<close> (at least two, with a leading zero if need be) with a point before the
  last.
\<close>

definition tenths :: "nat \<Rightarrow> nat \<Rightarrow> nat" where
  "tenths m k = (20 * m + 2 ^ k) div 2 ^ Suc k"

definition toFixed1 :: "nat \<Rightarrow> string" where
  "toFixed1 t = toString10 (t div 10) @ ''.'' @ toString10 (t mod 10)"

text \<open>The tenths that \<open>(s / n).toFixed(1)\<close> prints, for \<open>0 < s\<close> and \<open>0 < n\<close>.\<close>

definition meanTenths :: "nat \<Rightarrow> nat \<Rightarrow> nat" where
  "meanTenths s n =
     (let k = scaleExp s n 0 in tenths (roundHalfEven (s * 2 ^ k) n) k)"

text \<open>
  \<open>getAverageRating(ratings)\<close>; \<open>None\<close> is a missing list (\<open>undefined\<close> or \<open>null\<close>). A sum
  of 0 gives the double 0 and the text \<open>0.0\<close>.
\<close>

definition getAverageRating :: "nat list option \<Rightarrow> string" where
  "getAverageRating ratings =
     (case ratings of
        None \<Rightarrow> ''N/A''
      | Some rs \<Rightarrow>
          if length rs = 0 then ''N/A''
          else if sum_list rs = 0 then toFixed1 0
          else toFixed1 (meanTenths (sum_list rs) (length rs)))"

text \<open>
  The number of tenths that a text of decimal digits with a point denotes: \<open>4.7\<close> denotes
  47.
\<close>

definition digitsValue :: "string \<Rightarrow> nat" where
  "digitsValue s = foldl (\<lambda>n c. 10 * n + (of_char c - 48)) 0 s"

definition fixed1Value :: "string \<Rightarrow> nat" where
  "fixed1Value s = digitsValue (filter (\<lambda>c. c \<noteq> CHR ''.'') s)"

text \<open>
  The page of a first visit once it has loaded: \<open>demo_app\<close> on the store that
  \<open>initializeStorageFiles\<close> leaves.
\<close>

definition page_app :: app where
  "page_app = demo_app\<lparr>store := initializeStorageFiles (storage demo_session) empty_store\<rparr>"

section \<open>Reading an absent comments key\<close>

lemma getDefaults_comments: "getDefaults (''comments.'' @ pid) = JNull"
  by (simp add: getDefaults_def)

text \<open>
  C1, as stated, at the key \<open>comments.999\<close> of an empty store: the claim expects the empty
  list; the code answers \<open>null\<close>, because the defaults table has no entry for any
  \<open>comments.*\<close> key.
\<close>

theorem getItem_comments_999_not_empty_list:
  "getItem \<lparr>enabled = True\<rparr> \<lparr>texts = Map.empty, docs = Map.empty, full = False\<rparr> ''comments.999''
     \<noteq> JArr []"
  by (simp add: getItem_def getDefaults_def)

text \<open>
  C1, amended: for every key \<open>comments.<projectId>\<close> with no stored value, \<open>getItem\<close>
  returns \<open>null\<close> (and returns in every case, it never throws); the empty list is what the
  callers' own \<open>|| []\<close> makes of that \<open>null\<close>.
\<close>

theorem getItem_comments_absent:
  assumes "docs ls (storage_prefix @ ''comments.'' @ pid) = None"
  shows "getItem fs ls (''comments.'' @ pid) = JNull
         \<and> or_else (getItem fs ls (''comments.'' @ pid)) (JArr []) = JArr []"
proof -
  have "getItem fs ls (''comments.'' @ pid) = getDefaults (''comments.'' @ pid)"
    using assms unfolding getItem_def by simp
  then have "getItem fs ls (''comments.'' @ pid) = JNull"
    by (simp only: getDefaults_comments)
  then show ?thesis
    by (simp only: or_else_def truthy.simps if_False simp_thms)
qed

theorem getItem_comments_absent_witness:
  "docs \<lparr>texts = Map.empty, docs = Map.empty, full = False\<rparr> (storage_prefix @ ''comments.'' @ ''999'') = None
   \<and> getItem \<lparr>enabled = True\<rparr> \<lparr>texts = Map.empty, docs = Map.empty, full = False\<rparr> (''comments.'' @ ''999'') = JNull"
  using getItem_comments_absent [of "\<lparr>texts = Map.empty, docs = Map.empty, full = False\<rparr>" "''999''" "\<lparr>enabled = True\<rparr>"]
  by simp

section \<open>The stamp\<close>

lemma to_int32_range: "- 2147483648 \<le> to_int32 x \<and> to_int32 x < 2147483648"
  unfolding to_int32_def by simp

lemma simpleHash_loop_range:
  "- 2147483648 \<le> h \<Longrightarrow> h < 2147483648 \<Longrightarrow>
   - 2147483648 \<le> simpleHash_loop h s \<and> simpleHash_loop h s < 2147483648"
  by (induction s arbitrary: h) (simp_all add: to_int32_range)

lemma simpleHash_le: "simpleHash str \<le> 2147483648"
  using simpleHash_loop_range [of 0 str] unfolding simpleHash_def by linarith

lemma toString36_nonempty: "toString36 n \<noteq> []"
  by (subst toString36.simps) simp

lemma toString36_length_le:
  "0 < k \<Longrightarrow> (length (toString36 n) \<le> k) = (n < 36 ^ k)"
proof (induction n arbitrary: k rule: toString36.induct)
  case (1 n)
  show ?case
  proof (cases "n < 36")
    case True
    have "(36::nat) ^ 1 \<le> 36 ^ k" using 1(2) by (intro power_increasing) simp_all
    with True have "n < 36 ^ k" by simp
    with True 1(2) show ?thesis by (subst toString36.simps) simp
  next
    case False
    show ?thesis
    proof (cases k)
      case 0 with 1(2) show ?thesis by simp
    next
      case (Suc j)
      show ?thesis
      proof (cases "j = 0")
        case True
        with Suc False show ?thesis by (subst toString36.simps) (simp add: toString36_nonempty)
      next
        case j: False
        have "(length (toString36 (n div 36)) \<le> j) = (n div 36 < 36 ^ j)"
          using 1(1) [OF False, of j] j by simp
        moreover have "(n div 36 < 36 ^ j) = (n < 36 ^ Suc j)"
          by (simp add: div_less_iff_less_mult mult.commute)
        ultimately show ?thesis using False Suc
          by (subst toString36.simps) simp
      qed
    qed
  qed
qed

lemma digit36_upper: "d < 36 \<Longrightarrow> is_upper36 (upper_char (digit36 d))"
  by (simp add: is_upper36_def upper_char_def digit36_def)

lemma toString36_digits: "c \<in> set (toString36 n) \<Longrightarrow> \<exists>d<36. c = digit36 d"
proof (induction n rule: toString36.induct)
  case (1 n)
  show ?case
  proof (cases "n < 36")
    case True
    with 1(2) show ?thesis by (subst (asm) toString36.simps) auto
  next
    case False
    from 1(2) False have "c \<in> set (toString36 (n div 36)) \<or> c = digit36 (n mod 36)"
      by (subst (asm) toString36.simps) auto
    then show ?thesis
    proof
      assume "c \<in> set (toString36 (n div 36))"
      then show ?thesis using 1(1) [OF False] by blast
    next
      assume "c = digit36 (n mod 36)"
      moreover have "n mod 36 < 36" by simp
      ultimately show ?thesis by blast
    qed
  qed
qed

lemma computeStamp_chars: "c \<in> set (computeStamp fp) \<Longrightarrow> is_upper36 c"
proof -
  assume "c \<in> set (computeStamp fp)"
  then obtain c' where c': "c' \<in> set (take 6 (toString36 (simpleHash (browserData fp))))"
    and c: "c = upper_char c'"
    by (auto simp: computeStamp_def toUpperCase_def)
  from c' have "c' \<in> set (toString36 (simpleHash (browserData fp)))"
    by (rule in_set_takeD)
  then obtain d where "d < 36" "c' = digit36 d"
    using toString36_digits by blast
  with c show ?thesis by (simp add: digit36_upper)
qed

lemma computeStamp_length:
  "length (computeStamp fp) = length (toString36 (simpleHash (browserData fp)))
   \<and> 1 \<le> length (computeStamp fp) \<and> length (computeStamp fp) \<le> 6"
proof -
  let ?h = "simpleHash (browserData fp)"
  have "?h < 36 ^ 6" using simpleHash_le [of "browserData fp"] by simp
  then have le: "length (toString36 ?h) \<le> 6"
    using toString36_length_le [of 6 ?h] by simp
  have "1 \<le> length (toString36 ?h)"
    using toString36_nonempty [of ?h] by (cases "toString36 ?h") simp_all
  with le show ?thesis by (simp add: computeStamp_def toUpperCase_def)
qed

lemma computeStamp_six:
  "(length (computeStamp fp) = 6) = (36 ^ 5 \<le> simpleHash (browserData fp))"
proof -
  let ?h = "simpleHash (browserData fp)"
  have "(length (toString36 ?h) \<le> 5) = (?h < 36 ^ 5)"
    using toString36_length_le [of 5 ?h] by simp
  with computeStamp_length [of fp] show ?thesis by auto
qed

lemma generateUserStamp_again:
  assumes "texts ls' ''userStamp'' = Some s" and "s \<noteq> []"
  shows "generateUserStamp fp' ls' = Inr (s, ls')"
  using assms by (simp add: generateUserStamp_def)

lemma computeStamp_nonempty: "computeStamp fp \<noteq> []"
  using computeStamp_length [of fp] by (cases "computeStamp fp") simp_all

lemma stamp_t10: "toString10 2560 = ''2560''" "toString10 1440 = ''1440''"
  by (simp_all add: toString10.simps digit36_def char_of_eq_iff)

lemma stamp_t36: "toString36 14794032 = ''8t35c''"
  by (simp add: toString36.simps digit36_def char_of_eq_iff)

lemma stamp_upper: "toUpperCase ''8t35c'' = ''8T35C''"
  by (simp add: toUpperCase_def upper_char_def char_of_eq_iff)

lemma browserData_firefox_de:
  "browserData firefox_de =
     ''Mozilla/5.0 (Windows NT 10.0; Win64; x64; rv:121.0) Gecko/20100101 Firefox/121.0de25601440''"
  by (simp add: browserData_def firefox_de_def stamp_t10)

lemma simpleHash_firefox_de:
  "simpleHash ''Mozilla/5.0 (Windows NT 10.0; Win64; x64; rv:121.0) Gecko/20100101 Firefox/121.0de25601440''
     = 14794032"
  by (simp add: simpleHash_def to_int32_def)

lemma computeStamp_firefox_de: "computeStamp firefox_de = ''8T35C''"
  by (simp add: computeStamp_def browserData_firefox_de simpleHash_firefox_de stamp_t36 stamp_upper)

text \<open>
  C6, as stated, on a first visit (empty store) with the fingerprint \<open>firefox_de\<close>: the hash
  is 14794032, below \<open>36 ^ 5\<close>, so its base-36 numeral has five digits; \<open>substring(0, 6)\<close>
  only truncates, and the stamp returned and stored is the five characters \<open>8T35C\<close>, not six.
\<close>

theorem generateUserStamp_firefox_de_five_chars:
  "generateUserStamp firefox_de empty_store
     = Inr (''8T35C'', empty_store\<lparr>texts := (texts empty_store)(''userStamp'' \<mapsto> ''8T35C'')\<rparr>)
   \<and> length ''8T35C'' \<noteq> (6::nat)"
  by (simp add: generateUserStamp_def ls_setText_def computeStamp_firefox_de empty_store_def)

text \<open>
  C6, amended: when the store accepts the write, \<open>generateUserStamp\<close> returns a stamp, and
  every later call on the store it leaves (within the session or after a reload, whatever
  the fingerprint then is) returns that same stamp and leaves the store as it is. A stamp
  computed on a first visit is the upper-cased base-36 numeral of the hash cut to six
  characters and never padded: it has between one and six characters, each of them
  \<open>0\<close> to \<open>9\<close> or \<open>A\<close> to \<open>Z\<close>, and exactly six when the hash is at least \<open>36 ^ 5\<close>.
\<close>

theorem generateUserStamp_stable:
  assumes "\<not> full ls"
  shows "\<exists>s ls'. generateUserStamp fp ls = Inr (s, ls')
           \<and> (\<forall>fp'. generateUserStamp fp' ls' = Inr (s, ls'))
           \<and> (texts ls ''userStamp'' = None \<longrightarrow>
                 s = computeStamp fp \<and> 1 \<le> length s \<and> length s \<le> 6
                 \<and> (\<forall>c\<in>set s. is_upper36 c)
                 \<and> ((length s = 6) = (36 ^ 5 \<le> simpleHash (browserData fp))))"
proof (cases "\<exists>e. texts ls ''userStamp'' = Some e \<and> e \<noteq> []")
  case True
  then obtain e where e: "texts ls ''userStamp'' = Some e" "e \<noteq> []" by blast
  then have "generateUserStamp fp ls = Inr (e, ls)"
    by (simp add: generateUserStamp_def)
  moreover have "\<forall>fp'. generateUserStamp fp' ls = Inr (e, ls)"
    using e by (simp add: generateUserStamp_again)
  ultimately show ?thesis using e by auto
next
  case False
  let ?s = "computeStamp fp"
  let ?ls = "ls\<lparr>texts := (texts ls)(''userStamp'' \<mapsto> ?s)\<rparr>"
  from False assms have run: "generateUserStamp fp ls = Inr (?s, ?ls)"
    by (auto simp: generateUserStamp_def ls_setText_def split: option.splits)
  have "texts ?ls ''userStamp'' = Some ?s" by simp
  then have again: "\<forall>fp'. generateUserStamp fp' ?ls = Inr (?s, ?ls)"
    using computeStamp_nonempty [of fp] generateUserStamp_again by blast
  have "1 \<le> length ?s \<and> length ?s \<le> 6 \<and> (\<forall>c\<in>set ?s. is_upper36 c)
        \<and> ((length ?s = 6) = (36 ^ 5 \<le> simpleHash (browserData fp)))"
    using computeStamp_length [of fp] computeStamp_chars [of _ fp] computeStamp_six [of fp]
    by blast
  with run again show ?thesis by blast
qed

theorem generateUserStamp_stable_witness:
  "\<not> full empty_store \<and> texts empty_store ''userStamp'' = None
   \<and> generateUserStamp firefox_de empty_store
       = Inr (''8T35C'', empty_store\<lparr>texts := (texts empty_store)(''userStamp'' \<mapsto> ''8T35C'')\<rparr>)
   \<and> generateUserStamp firefox_de
        (empty_store\<lparr>texts := (texts empty_store)(''userStamp'' \<mapsto> ''8T35C'')\<rparr>)
       = Inr (''8T35C'', empty_store\<lparr>texts := (texts empty_store)(''userStamp'' \<mapsto> ''8T35C'')\<rparr>)"
proof -
  have h: "\<not> full empty_store" by (simp add: empty_store_def)
  have run: "generateUserStamp firefox_de empty_store
       = Inr (''8T35C'', empty_store\<lparr>texts := (texts empty_store)(''userStamp'' \<mapsto> ''8T35C'')\<rparr>)"
    by (simp add: generateUserStamp_def ls_setText_def computeStamp_firefox_de empty_store_def)
  from generateUserStamp_stable [OF h, of firefox_de]
  obtain s ls' where first: "generateUserStamp firefox_de empty_store = Inr (s, ls')"
    and later: "\<forall>fp'. generateUserStamp fp' ls' = Inr (s, ls')" by blast
  from first run
  have "Inr (s, ls') = (Inr (''8T35C'', empty_store\<lparr>texts := (texts empty_store)(''userStamp'' \<mapsto> ''8T35C'')\<rparr>)
          :: error + (string \<times> local_storage))"
    by (rule trans [OF sym])
  then have "s = ''8T35C''"
    and "ls' = empty_store\<lparr>texts := (texts empty_store)(''userStamp'' \<mapsto> ''8T35C'')\<rparr>"
    by blast+
  with later have "generateUserStamp firefox_de
        (empty_store\<lparr>texts := (texts empty_store)(''userStamp'' \<mapsto> ''8T35C'')\<rparr>)
       = Inr (''8T35C'', empty_store\<lparr>texts := (texts empty_store)(''userStamp'' \<mapsto> ''8T35C'')\<rparr>)"
    by blast
  moreover have "texts empty_store ''userStamp'' = None" by (simp add: empty_store_def)
  ultimately show ?thesis using h run by blast
qed

section \<open>The activity log keeps its last 1000 entries\<close>

lemma getItem_enabled: "enabled fs \<Longrightarrow> enabled fs' \<Longrightarrow> getItem fs ls key = getItem fs' ls key"
  by (simp add: getItem_def)

lemma getItem_logs_written:
  "enabled fs \<Longrightarrow> getItem fs (ls\<lparr>docs := (docs ls)(logsKey \<mapsto> Parsed v)\<rparr>) ''logs._activity_logs'' = v"
  by (simp add: getItem_def logsKey_def)

lemma last1000_append: "last1000 (last1000 xs @ ys) = last1000 (xs @ ys)"
  by (cases "length xs \<le> 1000") (simp_all add: last1000_def add.commute)

lemma last1000_length: "length (last1000 xs) \<le> 1000"
  by (simp add: last1000_def)

lemma last1000_full: "1000 < length xs \<Longrightarrow> length (last1000 xs) = 1000"
  by (simp add: last1000_def)

lemma logActivity_step:
  assumes "enabled (storage us)" and "\<not> full ls"
    and "or_else (getItem (storage us) ls ''logs._activity_logs'') (JArr []) = JArr old"
  shows "logActivity us ls now action data
           = (Returned (),
              ls\<lparr>docs := (docs ls)(logsKey \<mapsto> Parsed (JArr (last1000 (old @ [logEntry us now action data]))))\<rparr>)"
  using assms
  by (simp add: logActivity_def setItem_def ls_setDoc_def logsKey_def last1000_def Let_def)

lemma logActivities_run:
  assumes "\<not> full ls" and "\<forall>c\<in>set cs. enabled (storage (fst c))"
    and "enabled fs"
    and "or_else (getItem fs ls ''logs._activity_logs'') (JArr []) = JArr old" and "cs \<noteq> []"
  shows "logActivities ls cs
           = (Returned (),
              ls\<lparr>docs := (docs ls)(logsKey \<mapsto> Parsed (JArr (last1000 (old @ map callEntry cs))))\<rparr>)"
  using assms
proof (induction cs arbitrary: ls old)
  case Nil
  then show ?case by simp
next
  case (Cons c cs)
  obtain us now action data where c: "c = (us, now, action, data)" by (cases c) auto
  let ?e = "logEntry us now action data"
  let ?ls = "ls\<lparr>docs := (docs ls)(logsKey \<mapsto> Parsed (JArr (last1000 (old @ [?e]))))\<rparr>"
  have en: "enabled (storage us)" using Cons.prems(2) c by simp
  have "getItem (storage us) ls ''logs._activity_logs'' = getItem fs ls ''logs._activity_logs''"
    using en Cons.prems(3) by (rule getItem_enabled)
  with Cons.prems(4)
  have "or_else (getItem (storage us) ls ''logs._activity_logs'') (JArr []) = JArr old"
    by simp
  with en Cons.prems(1) have step: "logActivity us ls now action data = (Returned (), ?ls)"
    by (rule logActivity_step)
  have rd: "or_else (getItem fs ?ls ''logs._activity_logs'') (JArr [])
              = JArr (last1000 (old @ [?e]))"
    using Cons.prems(3) by (simp add: getItem_logs_written or_else_def)
  have run1: "logActivities ls (c # cs) = logActivities ?ls cs"
    by (simp add: c step)
  show ?case
  proof (cases "cs = []")
    case True
    have "old @ map callEntry (c # cs) = old @ [?e]" by (simp add: c True)
    moreover have "logActivities ls (c # cs) = (Returned (), ?ls)"
      unfolding run1 by (simp add: True)
    ultimately show ?thesis by (simp only:)
  next
    case False
    let ?all = "last1000 (last1000 (old @ [?e]) @ map callEntry cs)"
    have "logActivities ?ls cs
            = (Returned (), ?ls\<lparr>docs := (docs ?ls)(logsKey \<mapsto> Parsed (JArr ?all))\<rparr>)"
      using Cons.prems(1,2,3) rd False by (intro Cons.IH) simp_all
    moreover have "?ls\<lparr>docs := (docs ?ls)(logsKey \<mapsto> Parsed (JArr ?all))\<rparr>
                     = ls\<lparr>docs := (docs ls)(logsKey \<mapsto> Parsed (JArr ?all))\<rparr>"
      by simp
    moreover have "?all = last1000 (old @ map callEntry (c # cs))"
      by (simp add: last1000_append c)
    ultimately show ?thesis unfolding run1 by (simp only:)
  qed
qed

text \<open>
  C2: from every starting list \<open>old\<close> (what \<open>logActivity\<close> reads: the stored list, or the
  empty list when nothing usable is stored), after any non-empty sequence \<open>cs\<close> of
  \<open>logActivity\<close> calls on a store that accepts writes, every call has returned and the
  stored list is the last 1000 elements of \<open>old\<close> followed by the new entries in call order.
  It never has more than 1000 entries, and once \<open>old\<close> and the appended entries together
  exceed 1000 it has exactly 1000: all but the most recent 1000 are dropped from the front.
\<close>

theorem logActivities_cap:
  assumes "\<not> full ls" and "\<forall>c\<in>set cs. enabled (storage (fst c))" and "cs \<noteq> []"
    and "enabled fs"
    and "or_else (getItem fs ls ''logs._activity_logs'') (JArr []) = JArr old"
  shows "\<exists>ls'. logActivities ls cs = (Returned (), ls')
           \<and> getItem fs ls' ''logs._activity_logs'' = JArr (last1000 (old @ map callEntry cs))
           \<and> length (last1000 (old @ map callEntry cs)) \<le> 1000
           \<and> (1000 < length old + length cs \<longrightarrow>
                 length (last1000 (old @ map callEntry cs)) = 1000
                 \<and> last1000 (old @ map callEntry cs)
                     = drop (length old + length cs - 1000) (old @ map callEntry cs))"
proof -
  let ?all = "old @ map callEntry cs"
  let ?ls = "ls\<lparr>docs := (docs ls)(logsKey \<mapsto> Parsed (JArr (last1000 ?all)))\<rparr>"
  have "logActivities ls cs = (Returned (), ?ls)"
    using assms(1,2,4,5,3) by (rule logActivities_run)
  moreover have "getItem fs ?ls ''logs._activity_logs'' = JArr (last1000 ?all)"
    using assms(4) by (rule getItem_logs_written)
  moreover have "length (last1000 ?all) \<le> 1000" by (rule last1000_length)
  moreover have "1000 < length old + length cs \<longrightarrow>
                 length (last1000 ?all) = 1000
                 \<and> last1000 ?all = drop (length old + length cs - 1000) ?all"
  proof
    assume "1000 < length old + length cs"
    then have "1000 < length ?all" by simp
    then have "length (last1000 ?all) = 1000" by (rule last1000_full)
    moreover have "length ?all = length old + length cs" by simp
    then have "last1000 ?all = drop (length old + length cs - 1000) ?all"
      unfolding last1000_def by (simp only:)
    ultimately show "length (last1000 ?all) = 1000
                 \<and> last1000 ?all = drop (length old + length cs - 1000) ?all" by blast
  qed
  ultimately show ?thesis by blast
qed

text \<open>
  The instance of the claim: 1050 calls on an empty store leave exactly the entries of the
  calls 50 to 1049, in order.
\<close>

theorem logActivities_cap_witness:
  "fst (logActivities empty_store (map demo_call [0..<1050])) = Returned ()
   \<and> getItem \<lparr>enabled = True\<rparr> (snd (logActivities empty_store (map demo_call [0..<1050])))
        ''logs._activity_logs''
       = JArr (map (\<lambda>i. callEntry (demo_call i)) [50..<1050])
   \<and> length (map (\<lambda>i. callEntry (demo_call i)) [50..<1050]) = 1000"
proof -
  let ?cs = "map demo_call [0..<1050]"
  have h1: "\<not> full empty_store" by (simp add: empty_store_def)
  have h2: "\<forall>c\<in>set ?cs. enabled (storage (fst c))"
    by (simp add: demo_call_def demo_session_def)
  have h3: "?cs \<noteq> []" by simp
  have h4: "enabled \<lparr>enabled = True\<rparr>" by simp
  have h5: "or_else (getItem \<lparr>enabled = True\<rparr> empty_store ''logs._activity_logs'') (JArr []) = JArr []"
    by (simp add: getItem_def getDefaults_def empty_store_def or_else_def)
  from logActivities_cap [OF h1 h2 h3 h4 h5]
  obtain ls' where run: "logActivities empty_store ?cs = (Returned (), ls')"
    and rd: "getItem \<lparr>enabled = True\<rparr> ls' ''logs._activity_logs''
               = JArr (last1000 ([] @ map callEntry ?cs))"
    by blast
  have "last1000 ([] @ map callEntry ?cs) = map (\<lambda>i. callEntry (demo_call i)) [50..<1050]"
    by (simp add: last1000_def drop_map comp_def)
  with run rd show ?thesis by simp
qed

section \<open>Nicknames\<close>

lemma setNickname_docs: "docs (snd (snd (setNickname us ls nick))) = docs ls"
  by (simp add: setNickname_def ls_setText_def split: result.splits option.splits)

lemma trim_Alice: "trim ''Alice'' = ''Alice''"
  by (simp add: trim_def is_space_def)

lemma setNickname_first:
  "setNickname first_session empty_store ''Alice''
     = (Returned ''Alice'', first_session\<lparr>nickname := Some ''Alice''\<rparr>,
        empty_store\<lparr>texts := (texts empty_store)(''userNickname'' \<mapsto> ''Alice'')\<rparr>)"
  by (simp add: setNickname_def ensureUniqueNickname_def ls_setText_def trim_Alice empty_store_def)

lemma store_after_first_eq:
  "store_after_first =
     snd (snd (saveUserDetails (first_session\<lparr>nickname := Some ''Alice''\<rparr>)
       (empty_store\<lparr>texts := (texts empty_store)(''userNickname'' \<mapsto> ''Alice'')\<rparr>)
       ''2024-01-05T10:00:00.000Z'' (JObj [(''email'', JStr ''alice@example.org'')])))"
  by (simp only: store_after_first_def setNickname_first prod.case split: prod.splits) simp

lemma store_after_first_docs:
  "docs store_after_first ''allUsers'' = None
   \<and> docs store_after_first (storage_prefix @ ''users.allUsers'')
       = Some (Parsed (JArr [JObj [(''stamp'', JStr ''A1B2C3''),
                                   (''nickname'', JStr ''Alice''),
                                   (''details'', JObj [(''email'', JStr ''alice@example.org'')]),
                                   (''lastActive'', JStr ''2024-01-05T10:00:00.000Z'')]]))
   \<and> \<not> full store_after_first"
  unfolding store_after_first_eq
  by (simp add: saveUserDetails_def logActivity_def
      getItem_def setItem_def ls_setDoc_def getDefaults_def or_else_def spread2_def nullable_def
      first_session_def demo_session_def empty_store_def storage_prefix_def Let_def)

text \<open>
  C4 at the failing input: the second identity claims \<open>Alice\<close> on the store where the first
  one holds it and is recorded with it in \<open>users.allUsers\<close>. \<open>ensureUniqueNickname\<close> reads
  the raw entry \<open>allUsers\<close>, which nothing writes, finds nobody, and the second identity
  receives \<open>Alice\<close> too, not \<open>Alice#Z9Y8X7\<close>.
\<close>

theorem setNickname_second_claimant_unsuffixed:
  "fst (setNickname first_session empty_store ''Alice'') = Returned ''Alice''
   \<and> getItem \<lparr>enabled = True\<rparr> store_after_first ''users.allUsers''
       = JArr [JObj [(''stamp'', JStr ''A1B2C3''),
                     (''nickname'', JStr ''Alice''),
                     (''details'', JObj [(''email'', JStr ''alice@example.org'')]),
                     (''lastActive'', JStr ''2024-01-05T10:00:00.000Z'')]]
   \<and> fst (setNickname second_session store_after_first ''Alice'') = Returned ''Alice''"
proof -
  have "fst (setNickname second_session store_after_first ''Alice'') = Returned ''Alice''"
    using store_after_first_docs
    by (simp add: setNickname_def ensureUniqueNickname_def ls_setText_def trim_Alice)
  moreover have "getItem \<lparr>enabled = True\<rparr> store_after_first ''users.allUsers''
       = JArr [JObj [(''stamp'', JStr ''A1B2C3''),
                     (''nickname'', JStr ''Alice''),
                     (''details'', JObj [(''email'', JStr ''alice@example.org'')]),
                     (''lastActive'', JStr ''2024-01-05T10:00:00.000Z'')]]"
    using store_after_first_docs by (simp add: getItem_def)
  ultimately show ?thesis unfolding setNickname_first by simp
qed

text \<open>
  C5 at the failing input: a first call of \<open>setNickname\<close> on an empty store returns
  \<open>Alice\<close> and leaves \<open>users.allUsers\<close> without any record: the entry is still absent and
  reads as the default empty list. (\<open>setNickname_docs\<close>: no call of \<open>setNickname\<close> changes
  any entry read through \<open>JSON.parse\<close>.)
\<close>

theorem setNickname_leaves_allUsers_untouched:
  "fst (setNickname first_session empty_store ''Alice'') = Returned ''Alice''
   \<and> docs (snd (snd (setNickname first_session empty_store ''Alice'')))
        (storage_prefix @ ''users.allUsers'') = None
   \<and> getItem \<lparr>enabled = True\<rparr> (snd (snd (setNickname first_session empty_store ''Alice'')))
        ''users.allUsers'' = JArr []"
  unfolding setNickname_first
  by (simp add: getItem_def getDefaults_def empty_store_def)

section \<open>Seeding\<close>

lemma store_after_init_eq:
  "store_after_init =
     empty_store\<lparr>docs := (docs empty_store)(logsKey \<mapsto> Parsed (JArr
       [logEntry demo_session ''2024-01-05T10:00:00.000Z'' ''session_initialized''
          (JObj [(''isReturningUser'', JBool False), (''hasNickname'', JBool False)])]))\<rparr>"
proof -
  have "enabled (storage demo_session)" by (simp add: demo_session_def)
  moreover have "\<not> full empty_store" by (simp add: empty_store_def)
  moreover have "or_else (getItem (storage demo_session) empty_store ''logs._activity_logs'') (JArr [])
                   = JArr []"
    by (simp add: getItem_def getDefaults_def empty_store_def or_else_def)
  ultimately show ?thesis
    unfolding store_after_init_def by (simp add: logActivity_step last1000_def)
qed

lemma populate_not_again:
  assumes "getItem fs ls ''projects.allProjects'' = JArr (p # ps)"
  shows "populateExampleProjects fs ls now = ls"
  using assms by (simp add: populateExampleProjects_def or_else_def)

text \<open>
  C7 at the failing input: on the store of a first visit, whose log holds the
  \<open>session_initialized\<close> entry, seeding stores the four example projects and then replaces
  the whole activity log by the single \<open>system_populate_examples\<close> entry; the prior entry is
  gone.
\<close>

theorem populateExampleProjects_overwrites_log:
  "getItem \<lparr>enabled = True\<rparr> store_after_init ''logs._activity_logs''
     = JArr [logEntry demo_session ''2024-01-05T10:00:00.000Z'' ''session_initialized''
               (JObj [(''isReturningUser'', JBool False), (''hasNickname'', JBool False)])]
   \<and> getItem \<lparr>enabled = True\<rparr>
         (populateExampleProjects \<lparr>enabled = True\<rparr> store_after_init ''2024-01-05T10:00:01.000Z'')
         ''logs._activity_logs''
     = JArr [JObj [(''action'', JStr ''system_populate_examples''),
                   (''timestamp'', JStr ''2024-01-05T10:00:01.000Z''),
                   (''details'', JStr ''Populated 4 example projects to storage'')]]"
  unfolding store_after_init_eq
  by (simp add: populateExampleProjects_def getItem_def setItem_def ls_setDoc_def getDefaults_def
      or_else_def logsKey_def storage_prefix_def empty_store_def projects_def Let_def
      toString10.simps digit36_def char_of_eq_iff)

section \<open>Stored comment texts are sanitised\<close>

lemma escaped_entityMap: "escaped (entityMap c @ r) = escaped r"
  by (simp add: entityMap_def entityTails_def)

lemma escaped_sanitizeInput: "escaped (sanitizeInput s)"
  unfolding sanitizeInput_def
  by (induction s) (simp_all add: escaped_entityMap)

lemma sanitizeInput_withEntities: "sanitizeInput s = withEntities s"
  by (induction s) (simp_all add: sanitizeInput_def entityMap_def)

lemma decodeEntities_entityMap: "decodeEntities (entityMap c @ r) = c # decodeEntities r"
  by (simp add: entityMap_def)

lemma decodeEntities_sanitizeInput: "decodeEntities (sanitizeInput s) = s"
proof (induction s)
  case Nil
  then show ?case by (simp add: sanitizeInput_def)
next
  case (Cons c s)
  have "sanitizeInput (c # s) = entityMap c @ sanitizeInput s" by (simp add: sanitizeInput_def)
  with Cons show ?case by (simp only: decodeEntities_entityMap)
qed

lemma sanitizeInput_example:
  "sanitizeInput ''<b>Tom & Jerry</b>'' = ''&lt;b&gt;Tom &amp; Jerry&lt;/b&gt;''"
  by (simp add: sanitizeInput_def entityMap_def)

lemma setNickname_frame:
  assumes "setNickname us ls nick = (r, us1, ls1)"
  shows "docs ls1 = docs ls \<and> storage us1 = storage us \<and> stamp us1 = stamp us \<and> full ls1 = full ls"
  using assms
  by (auto simp: setNickname_def ls_setText_def split: result.splits option.splits if_splits)

lemma setItem_snd:
  "snd (setItem fs ls key v)
     = (if enabled fs \<and> \<not> full ls then ls\<lparr>docs := (docs ls)(storage_prefix @ key \<mapsto> Parsed v)\<rparr> else ls)"
  by (simp add: setItem_def ls_setDoc_def)

lemma logActivity_frame:
  assumes "logActivity us ls now action data = (r, ls')"
  shows "full ls' = full ls \<and> texts ls' = texts ls \<and> (k \<noteq> logsKey \<longrightarrow> docs ls' k = docs ls k)"
  using assms
  by (auto simp: logActivity_def setItem_snd logsKey_def Let_def split: json.splits if_splits)

lemma comments_key_not_logs: "storage_prefix @ ''comments.'' @ x \<noteq> logsKey"
  by (simp add: storage_prefix_def logsKey_def)


lemma nickname_step_frame:
  assumes "(if c then setNickname us ls nick else (Returned nick, us, ls)) = (r, us1, ls1)"
  shows "docs ls1 = docs ls \<and> storage us1 = storage us \<and> stamp us1 = stamp us \<and> full ls1 = full ls"
  using assms setNickname_frame [of us ls nick r us1 ls1] by (cases c) simp_all

text \<open>
  C10: whatever \<open>addComment\<close> is called with and however it ends, the entry
  \<open>comments.<projectId>\<close> is afterwards either what it was, or the list that was read
  followed by one new comment whose \<open>text\<close> is \<open>sanitizeInput\<close> of the trimmed input. That
  text is the trimmed input with each \<open><\<close>, \<open>>\<close>, double quote, single quote and \<open>&\<close>
  replaced by its entity \<open>&lt;\<close>, \<open>&gt;\<close>, \<open>&quot;\<close>, \<open>&#39;\<close>, \<open>&amp;\<close> and every
  other character kept (\<open>withEntities\<close>); it is escaped: it has none of the first four
  characters, and every \<open>&\<close> in it is the first character of one of the five entities;
  and read back entity by entity it is the trimmed input again.
\<close>

theorem addComment_stores_sanitized:
  "docs (store (snd (addComment a fp clk projectId textarea_value nickname_text)))
        (storage_prefix @ ''comments.'' @ toString10 projectId)
     = docs (store a) (storage_prefix @ ''comments.'' @ toString10 projectId)
   \<or> (\<exists>old author st ts.
         or_else (getItem (storage (session a)) (store a) (''comments.'' @ toString10 projectId)) (JArr [])
           = JArr old
         \<and> docs (store (snd (addComment a fp clk projectId textarea_value nickname_text)))
              (storage_prefix @ ''comments.'' @ toString10 projectId)
           = Some (Parsed (JArr (old @ [JObj [(''author'', JStr author),
                                              (''stamp'', JStr st),
                                              (''text'', JStr (sanitizeInput (trim textarea_value))),
                                              (''timestamp'', JStr ts)]])))
         \<and> sanitizeInput (trim textarea_value) = withEntities (trim textarea_value)
         \<and> escaped (sanitizeInput (trim textarea_value))
         \<and> decodeEntities (sanitizeInput (trim textarea_value)) = trim textarea_value)"
  (is "?same \<or> ?appended")
proof -
  let ?key = "''comments.'' @ toString10 projectId"
  let ?ckey = "storage_prefix @ ?key"
  let ?text = "sanitizeInput (trim textarea_value)"
  let ?R = "addComment a fp clk projectId textarea_value nickname_text"
  show ?thesis
  proof (cases nickname_text)
    case None
    then have "?R = (Failed TypeError, a)" by (simp add: addComment_def)
    then show ?thesis by simp
  next
    case (Some t)
    let ?nick = "sanitizeInput (trim t)"
    show ?thesis
    proof (cases "?text = [] \<or> length ?text > MAX_COMMENT_LENGTH
                  \<or> date_now clk - lastCommentTime (tracker a) < COMMENT_COOLDOWN")
      case True
      then have "snd ?R = a" by (auto simp: addComment_def Some Let_def)
      then show ?thesis by simp
    next
      case False
      obtain r us1 ls1 where nk:
        "(if ?nick \<noteq> [] \<and> Some ?nick \<noteq> nickname (session a)
          then setNickname (session a) (store a) ?nick
          else (Returned ?nick, session a, store a)) = (r, us1, ls1)"
        by (rule prod_cases3)
      from nickname_step_frame [OF nk]
      have fr: "docs ls1 = docs (store a)" "storage us1 = storage (session a)" "full ls1 = full (store a)"
        by simp_all
      show ?thesis
      proof (cases r)
        case (Thrown e)
        with False nk have "snd ?R = a\<lparr>session := us1, store := ls1\<rparr>"
          by (simp add: addComment_def Some Let_def)
        with fr show ?thesis by simp
      next
        case (Returned x)
        let ?read = "or_else (getItem (storage us1) ls1 ?key) (JArr [])"
        have rd: "?read = or_else (getItem (storage (session a)) (store a) ?key) (JArr [])"
          using fr by (simp add: getItem_def)
        show ?thesis
        proof (cases "\<exists>comments. ?read = JArr comments")
          case no: False
          with False nk Returned have "snd ?R = a\<lparr>session := us1, store := ls1\<rparr>"
            by (auto simp: addComment_def Some Let_def split: json.splits)
          with fr show ?thesis by simp
        next
          case True
          then obtain comments where cs: "?read = JArr comments" by blast
          let ?comment = "JObj [(''author'', JStr ?nick), (''stamp'', JStr (stamp us1)),
                                (''text'', JStr ?text), (''timestamp'', JStr (iso_now clk))]"
          let ?ls2 = "snd (setItem (storage us1) ls1 ?key (JArr (comments @ [?comment])))"
          obtain r3 ls3 where lg: "logActivity us1 ?ls2 (iso_now clk) ''comment_added''
                 (JObj [(''projectId'', JNum (int projectId)),
                        (''commentLength'', JNum (int (length ?text))),
                        (''hasNickname'', JBool (?nick \<noteq> [])),
                        (''nickname'', JStr ?nick),
                        (''userAgent'', JStr (userAgent fp)),
                        (''timestamp'', JStr (iso_now clk))]) = (r3, ls3)"
            by (rule prod.exhaust)
          have d3: "docs ls3 ?ckey = docs ?ls2 ?ckey"
            using logActivity_frame [OF lg, of ?ckey] comments_key_not_logs by simp
          have st: "store (snd ?R) = ls3"
            using False nk Returned cs lg
            by (cases r3) (simp_all add: addComment_def Some Let_def)
          have "docs ?ls2 ?ckey = docs (store a) ?ckey
                \<or> docs ?ls2 ?ckey = Some (Parsed (JArr (comments @ [?comment])))"
            using fr by (simp add: setItem_snd)
          then show ?thesis
          proof
            assume "docs ?ls2 ?ckey = docs (store a) ?ckey"
            with st d3 show ?thesis by simp
          next
            assume "docs ?ls2 ?ckey = Some (Parsed (JArr (comments @ [?comment])))"
            with st d3 have "docs (store (snd ?R)) ?ckey = Some (Parsed (JArr (comments @ [?comment])))"
              by simp
            moreover from cs rd
            have "or_else (getItem (storage (session a)) (store a) ?key) (JArr []) = JArr comments"
              by simp
            moreover have "escaped ?text" by (rule escaped_sanitizeInput)
            moreover have "?text = withEntities (trim textarea_value)"
              by (rule sanitizeInput_withEntities)
            moreover have "decodeEntities ?text = trim textarea_value"
              by (rule decodeEntities_sanitizeInput)
            ultimately have ?appended by blast
            then show ?thesis ..
          qed
        qed
      qed
    qed
  qed
qed

section \<open>Rate limiting\<close>

lemma readsAsList_cases:
  "readsAsList v \<Longrightarrow> \<exists>xs. or_else v (JArr []) = JArr xs"
  by (cases "or_else v (JArr [])") (simp_all add: readsAsList_def)

lemma getItem_setItem_other:
  "key' \<noteq> key \<Longrightarrow> getItem fs' (snd (setItem fs ls key v)) key' = getItem fs' ls key'"
  by (simp add: setItem_snd getItem_def)

lemma setItem_full: "full (snd (setItem fs ls key v)) = full ls"
  by (simp add: setItem_snd)

lemma getItem_docs_cong: "docs ls' = docs ls \<Longrightarrow> getItem fs ls' key = getItem fs ls key"
  by (simp add: getItem_def)

lemma logActivity_returns:
  assumes "readsAsList (getItem (storage us) ls ''logs._activity_logs'')"
  shows "\<exists>ls'. logActivity us ls now action data = (Returned (), ls')
           \<and> full ls' = full ls
           \<and> readsAsList (getItem (storage us) ls' ''logs._activity_logs'')
           \<and> (\<forall>key. key \<noteq> ''logs._activity_logs'' \<longrightarrow> getItem (storage us) ls' key = getItem (storage us) ls key)"
proof -
  from readsAsList_cases [OF assms] obtain logs
    where rd: "or_else (getItem (storage us) ls ''logs._activity_logs'') (JArr []) = JArr logs"
    by blast
  let ?pushed = "logs @ [logEntry us now action data]"
  let ?kept = "if length ?pushed > 1000 then drop (length ?pushed - 1000) ?pushed else ?pushed"
  let ?ls = "snd (setItem (storage us) ls ''logs._activity_logs'' (JArr ?kept))"
  have run: "logActivity us ls now action data = (Returned (), ?ls)"
    using rd by (simp add: logActivity_def Let_def)
  have "readsAsList (getItem (storage us) ?ls ''logs._activity_logs'')"
    using assms by (auto simp: setItem_snd getItem_def readsAsList_def or_else_def)
  moreover have "full ?ls = full ls" by (rule setItem_full)
  moreover have "\<forall>key. key \<noteq> ''logs._activity_logs'' \<longrightarrow>
                   getItem (storage us) ?ls key = getItem (storage us) ls key"
    by (simp add: getItem_setItem_other)
  ultimately show ?thesis using run by blast
qed

lemma setNickname_returns:
  assumes "\<not> full ls" and "docs ls ''allUsers'' = None"
  shows "setNickname us ls nick
           = (Returned (trim nick), us\<lparr>nickname := Some (trim nick)\<rparr>,
              ls\<lparr>texts := (texts ls)(''userNickname'' \<mapsto> trim nick)\<rparr>)"
  using assms by (simp add: setNickname_def ensureUniqueNickname_def ls_setText_def)

lemma nickname_step_returns:
  assumes "\<not> full ls" and "docs ls ''allUsers'' = None"
  shows "\<exists>r us1 ls1. (if c then setNickname us ls nick else (Returned nick, us, ls)) = (Returned r, us1, ls1)
           \<and> docs ls1 = docs ls \<and> storage us1 = storage us \<and> full ls1 = full ls"
  using setNickname_returns [OF assms, of us nick] by (cases c) simp_all

text \<open>The rate check of each handler rejects before anything is read or written.\<close>

lemma addComment_rejected:
  assumes "sanitizeInput (trim textarea_value) \<noteq> []"
    and "length (sanitizeInput (trim textarea_value)) \<le> MAX_COMMENT_LENGTH"
    and "date_now clk - lastCommentTime (tracker a) < COMMENT_COOLDOWN"
  shows "addComment a fp clk projectId textarea_value (Some t)
           = (RateLimited (COMMENT_COOLDOWN - (date_now clk - lastCommentTime (tracker a))), a)"
  using assms by (simp add: addComment_def Let_def)

lemma rateProject_rejected:
  assumes "date_now clk - lastRatingTime (tracker a) < RATING_COOLDOWN"
  shows "rateProject a clk projectId rating
           = (RateLimited (RATING_COOLDOWN - (date_now clk - lastRatingTime (tracker a))), a)"
  using assms by (simp add: rateProject_def)

lemma userProjectForm_submit_rejected:
  assumes "validateProjectData isValidUrl (trim (projectTitle form)) (trim (projectDesc form))
             [''user-submitted'']
             (if trim (projectUrl form) \<noteq> [] then Some (trim (projectUrl form)) else None) = []"
    and "date_now clk - lastProjectTime (tracker a) < PROJECT_COOLDOWN"
  shows "userProjectForm_submit isValidUrl a fp clk form
           = (RateLimited (PROJECT_COOLDOWN - (date_now clk - lastProjectTime (tracker a))), a)"
  using assms by (simp add: userProjectForm_submit_def Let_def)


lemma findIndexStamp_returns:
  "list_all (\<lambda>u. u \<noteq> JNull) xs \<Longrightarrow> \<exists>i. findIndexStamp own xs = Returned i"
  by (induction xs) (auto split: result.splits option.splits)

lemma readsAsRecords_cases:
  "readsAsRecords v \<Longrightarrow> \<exists>xs. or_else v (JArr []) = JArr xs \<and> list_all (\<lambda>u. u \<noteq> JNull) xs"
  by (cases "or_else v (JArr [])") (simp_all add: readsAsRecords_def)

lemma saveUserDetails_returns:
  assumes "readsAsRecords (getItem (storage us) ls ''users.allUsers'')"
    and "readsAsList (getItem (storage us) ls ''logs._activity_logs'')"
  shows "\<exists>us' ls'. saveUserDetails us ls now details = (Returned (), us', ls')
           \<and> storage us' = storage us \<and> full ls' = full ls
           \<and> readsAsList (getItem (storage us) ls' ''logs._activity_logs'')
           \<and> getItem (storage us) ls' ''projects.userProjects''
               = getItem (storage us) ls ''projects.userProjects''"
proof -
  let ?us1 = "us\<lparr>userDetails := spread2 (userDetails us) details\<rparr>"
  let ?ls1 = "snd (setItem (storage ?us1) ls ''users.details'' (userDetails ?us1))"
  have st: "storage ?us1 = storage us" by simp
  have "getItem (storage us) ?ls1 ''users.allUsers'' = getItem (storage us) ls ''users.allUsers''"
    by (simp add: getItem_setItem_other)
  with assms(1) obtain allUsers
    where rd: "or_else (getItem (storage ?us1) ?ls1 ''users.allUsers'') (JArr []) = JArr allUsers"
      and nn: "list_all (\<lambda>u. u \<noteq> JNull) allUsers"
    using readsAsRecords_cases by (metis st)
  from findIndexStamp_returns [OF nn] obtain userIndex
    where fi: "findIndexStamp (stamp ?us1) allUsers = Returned userIndex" by blast
  let ?userData = "JObj [(''stamp'', JStr (stamp ?us1)), (''nickname'', nullable (nickname ?us1)),
                         (''details'', userDetails ?us1), (''lastActive'', JStr now)]"
  let ?allUsers' = "case userIndex of Some i \<Rightarrow> allUsers[i := ?userData]
                                    | None \<Rightarrow> allUsers @ [?userData]"
  let ?ls2 = "snd (setItem (storage ?us1) ?ls1 ''users.allUsers'' (JArr ?allUsers'))"
  have "getItem (storage ?us1) ?ls2 ''logs._activity_logs''
          = getItem (storage us) ls ''logs._activity_logs''"
    by (simp add: getItem_setItem_other)
  with assms(2) have "readsAsList (getItem (storage ?us1) ?ls2 ''logs._activity_logs'')"
    by simp
  from logActivity_returns [OF this, of now "''user_details_saved''" "JObj [(''details'', details)]"]
  obtain ls3 where lg: "logActivity ?us1 ?ls2 now ''user_details_saved'' (JObj [(''details'', details)])
                          = (Returned (), ls3)"
    and f3: "full ls3 = full ?ls2"
    and l3: "readsAsList (getItem (storage ?us1) ls3 ''logs._activity_logs'')"
    and o3: "\<forall>key. key \<noteq> ''logs._activity_logs'' \<longrightarrow>
               getItem (storage ?us1) ls3 key = getItem (storage ?us1) ?ls2 key"
    by blast
  have run: "saveUserDetails us ls now details = (Returned (), ?us1, ls3)"
    using rd fi lg by (simp add: saveUserDetails_def Let_def)
  have "full ls3 = full ls" using f3 by (simp add: setItem_full)
  moreover have "getItem (storage us) ls3 ''projects.userProjects''
                   = getItem (storage us) ls ''projects.userProjects''"
    using o3 by (simp add: getItem_setItem_other)
  ultimately show ?thesis using run l3 st by auto
qed


text \<open>Once the cooldown has elapsed, each handler runs to its tracker update.\<close>

lemma addComment_allowed:
  assumes v1: "sanitizeInput (trim textarea_value) \<noteq> []"
    and v2: "length (sanitizeInput (trim textarea_value)) \<le> MAX_COMMENT_LENGTH"
    and el: "COMMENT_COOLDOWN \<le> date_now clk - lastCommentTime (tracker a)"
    and nf: "\<not> full (store a)" and au: "docs (store a) ''allUsers'' = None"
    and cl: "readsAsList (getItem (storage (session a)) (store a) (''comments.'' @ toString10 projectId))"
    and ll: "readsAsList (getItem (storage (session a)) (store a) ''logs._activity_logs'')"
  shows "\<exists>a'. addComment a fp clk projectId textarea_value (Some t) = (Completed, a')
           \<and> lastCommentTime (tracker a') = date_now_later clk"
proof -
  let ?text = "sanitizeInput (trim textarea_value)"
  let ?nick = "sanitizeInput (trim t)"
  let ?key = "''comments.'' @ toString10 projectId"
  from nickname_step_returns [OF nf au, of "?nick \<noteq> [] \<and> Some ?nick \<noteq> nickname (session a)" "session a" ?nick]
  obtain r us1 ls1 where nk:
      "(if ?nick \<noteq> [] \<and> Some ?nick \<noteq> nickname (session a)
        then setNickname (session a) (store a) ?nick
        else (Returned ?nick, session a, store a)) = (Returned r, us1, ls1)"
    and fr: "docs ls1 = docs (store a)" "storage us1 = storage (session a)"
    by blast
  have g: "\<And>key. getItem (storage us1) ls1 key = getItem (storage (session a)) (store a) key"
    using fr by (simp add: getItem_def)
  from cl obtain comments where cs: "or_else (getItem (storage us1) ls1 ?key) (JArr []) = JArr comments"
    using readsAsList_cases g by metis
  let ?comment = "JObj [(''author'', JStr ?nick), (''stamp'', JStr (stamp us1)),
                        (''text'', JStr ?text), (''timestamp'', JStr (iso_now clk))]"
  let ?ls2 = "snd (setItem (storage us1) ls1 ?key (JArr (comments @ [?comment])))"
  have "getItem (storage us1) ?ls2 ''logs._activity_logs''
          = getItem (storage (session a)) (store a) ''logs._activity_logs''"
    using g by (simp add: getItem_setItem_other)
  with ll have "readsAsList (getItem (storage us1) ?ls2 ''logs._activity_logs'')" by simp
  from logActivity_returns [OF this] obtain ls3
    where lg: "logActivity us1 ?ls2 (iso_now clk) ''comment_added''
                 (JObj [(''projectId'', JNum (int projectId)),
                        (''commentLength'', JNum (int (length ?text))),
                        (''hasNickname'', JBool (?nick \<noteq> [])),
                        (''nickname'', JStr ?nick),
                        (''userAgent'', JStr (userAgent fp)),
                        (''timestamp'', JStr (iso_now clk))]) = (Returned (), ls3)"
    by blast
  have "addComment a fp clk projectId textarea_value (Some t)
          = (Completed, a\<lparr>session := us1, store := ls3,
                          tracker := (tracker a)\<lparr>lastCommentTime := date_now_later clk\<rparr>\<rparr>)"
    using v1 v2 el nk cs lg by (simp add: addComment_def Let_def)
  then show ?thesis by simp
qed

lemma rateProject_allowed:
  assumes el: "RATING_COOLDOWN \<le> date_now clk - lastRatingTime (tracker a)"
    and rl: "readsAsList (getItem (storage (session a)) (store a) (''ratings.'' @ toString10 projectId))"
    and ll: "readsAsList (getItem (storage (session a)) (store a) ''logs._activity_logs'')"
  shows "\<exists>a'. rateProject a clk projectId rating = (Completed, a')
           \<and> lastRatingTime (tracker a') = date_now clk"
proof -
  let ?us = "session a"
  let ?key = "''ratings.'' @ toString10 projectId"
  from rl obtain ratings where rs: "or_else (getItem (storage ?us) (store a) ?key) (JArr []) = JArr ratings"
    using readsAsList_cases by blast
  let ?ls1 = "snd (setItem (storage ?us) (store a) ?key (JArr (ratings @ [JNum rating])))"
  have "getItem (storage ?us) ?ls1 ''logs._activity_logs''
          = getItem (storage ?us) (store a) ''logs._activity_logs''"
    by (simp add: getItem_setItem_other)
  with ll have "readsAsList (getItem (storage ?us) ?ls1 ''logs._activity_logs'')" by simp
  from logActivity_returns [OF this] obtain ls2
    where lg: "logActivity ?us ?ls1 (iso_now clk) ''project_rated''
                 (JObj [(''projectId'', JNum (int projectId)),
                        (''rating'', JNum rating),
                        (''totalRatings'', JNum (int (length (ratings @ [JNum rating]))))])
                 = (Returned (), ls2)"
    by blast
  have "rateProject a clk projectId rating
          = (Completed, a\<lparr>store := ls2, tracker := (tracker a)\<lparr>lastRatingTime := date_now clk\<rparr>\<rparr>)"
    using el rs lg by (simp add: rateProject_def Let_def)
  then show ?thesis by simp
qed

lemma userProjectForm_submit_allowed:
  assumes va: "validateProjectData isValidUrl (trim (projectTitle form)) (trim (projectDesc form))
             [''user-submitted'']
             (if trim (projectUrl form) \<noteq> [] then Some (trim (projectUrl form)) else None) = []"
    and el: "PROJECT_COOLDOWN \<le> date_now clk - lastProjectTime (tracker a)"
    and nf: "\<not> full (store a)" and au: "docs (store a) ''allUsers'' = None"
    and ul: "readsAsRecords (getItem (storage (session a)) (store a) ''users.allUsers'')"
    and pl: "readsAsList (getItem (storage (session a)) (store a) ''projects.userProjects'')"
    and ll: "readsAsList (getItem (storage (session a)) (store a) ''logs._activity_logs'')"
  shows "\<exists>a'. userProjectForm_submit isValidUrl a fp clk form = (Completed, a')
           \<and> lastProjectTime (tracker a') = date_now clk"
proof -
  let ?nick = "trim (userNick form)"
  let ?email = "trim (userEmail form)"
  let ?link = "trim (projectUrl form)"
  let ?fs = "storage (session a)"
  from nickname_step_returns [OF nf au, of "?nick \<noteq> [] \<and> Some ?nick \<noteq> nickname (session a)" "session a" ?nick]
  obtain r us1 ls1 where nk:
      "(if ?nick \<noteq> [] \<and> Some ?nick \<noteq> nickname (session a)
        then setNickname (session a) (store a) ?nick
        else (Returned ?nick, session a, store a)) = (Returned r, us1, ls1)"
    and fr: "docs ls1 = docs (store a)" "storage us1 = ?fs"
    by blast
  have g: "\<And>key. getItem (storage us1) ls1 key = getItem ?fs (store a) key"
    using fr by (simp add: getItem_def)
  let ?details = "JObj [(''email'', if ?email \<noteq> [] then JStr ?email else JNull),
                        (''timestamp'', JStr (iso_now clk)),
                        (''userAgent'', JStr (userAgent fp)),
                        (''language'', JStr (language fp)),
                        (''screen'', JObj [(''width'', JNum (int (screen_width fp))),
                                           (''height'', JNum (int (screen_height fp)))])]"
  have "\<exists>us2 ls2. (if ?email \<noteq> [] then saveUserDetails us1 ls1 (iso_now clk) ?details
                    else (Returned (), us1, ls1)) = (Returned (), us2, ls2)
          \<and> storage us2 = ?fs
          \<and> readsAsList (getItem ?fs ls2 ''logs._activity_logs'')
          \<and> getItem ?fs ls2 ''projects.userProjects'' = getItem ?fs (store a) ''projects.userProjects''"
  proof (cases "?email \<noteq> []")
    case True
    have "readsAsRecords (getItem (storage us1) ls1 ''users.allUsers'')"
      and "readsAsList (getItem (storage us1) ls1 ''logs._activity_logs'')"
      using ul ll g by simp_all
    from saveUserDetails_returns [OF this, of "iso_now clk" ?details] True fr g
    show ?thesis by auto
  next
    case False
    with fr g ll show ?thesis by auto
  qed
  then obtain us2 ls2 where sv:
      "(if ?email \<noteq> [] then saveUserDetails us1 ls1 (iso_now clk) ?details
        else (Returned (), us1, ls1)) = (Returned (), us2, ls2)"
    and s2: "storage us2 = ?fs"
    and l2: "readsAsList (getItem ?fs ls2 ''logs._activity_logs'')"
    and p2: "getItem ?fs ls2 ''projects.userProjects'' = getItem ?fs (store a) ''projects.userProjects''"
    by blast
  from pl p2 s2 obtain userProjects
    where ps: "or_else (getItem (storage us2) ls2 ''projects.userProjects'') (JArr []) = JArr userProjects"
    using readsAsList_cases by metis
  let ?project = "JObj [(''id'', JNum (date_now_later clk)),
                        (''title'', JStr (trim (projectTitle form))),
                        (''description'', JStr (trim (projectDesc form))),
                        (''tags'', JArr (map JStr [''user-submitted''])),
                        (''link'', if ?link \<noteq> [] then JStr ?link else JNull),
                        (''author'', JStr (case nickname us2 of
                                             None \<Rightarrow> ''Anonymous''
                                           | Some n \<Rightarrow> if n \<noteq> [] then n else ''Anonymous'')),
                        (''authorStamp'', JStr (stamp us2)),
                        (''timestamp'', JStr (iso_now clk)),
                        (''type'', JStr ''user''),
                        (''userDetails'', ?details)]"
  let ?ls3 = "snd (setItem (storage us2) ls2 ''projects.userProjects'' (JArr (userProjects @ [?project])))"
  have "getItem (storage us2) ?ls3 ''logs._activity_logs'' = getItem ?fs ls2 ''logs._activity_logs''"
    using s2 by (simp add: getItem_setItem_other)
  with l2 have "readsAsList (getItem (storage us2) ?ls3 ''logs._activity_logs'')" by simp
  from logActivity_returns [OF this] obtain ls4
    where lg: "logActivity us2 ?ls3 (iso_now clk) ''project_shared''
                 (JObj [(''projectId'', JNum (date_now_later clk)),
                        (''title'', JStr (trim (projectTitle form))),
                        (''hasEmail'', JBool (?email \<noteq> [])),
                        (''enhancedDetails'', ?details),
                        (''timestamp'', JStr (iso_now clk))]) = (Returned (), ls4)"
    by blast
  have "userProjectForm_submit isValidUrl a fp clk form
          = (Completed, a\<lparr>session := us2, store := ls4,
                          tracker := (tracker a)\<lparr>lastProjectTime := date_now clk\<rparr>\<rparr>)"
    using va el nk sv ps lg by (simp add: userProjectForm_submit_def Let_def)
  then show ?thesis by simp
qed

lemma page_store_eq:
  "store page_app =
     \<lparr>texts = Map.empty,
      docs = [storage_prefix @ ''users.users'' \<mapsto>
                Parsed (JObj [(''nickname'', JStr []), (''userDetails'', JNull), (''userStamp'', JNull),
                              (''lastVisit'', JNull), (''allUsers'', JArr [])]),
              storage_prefix @ ''projects.userProjects'' \<mapsto> Parsed (JObj [(''userProjects'', JArr [])]),
              storage_prefix @ ''comments.'' \<mapsto> Parsed (JObj []),
              storage_prefix @ ''ratings.'' \<mapsto> Parsed (JObj []),
              storage_prefix @ ''clicks.'' \<mapsto> Parsed (JObj [])],
      full = False\<rparr>"
  by (simp add: page_app_def demo_app_def demo_session_def empty_store_def
      initializeStorageFiles_def storageStructure_def fileKey_def getItem_def setItem_def
      ls_setDoc_def getDefaults_def storage_prefix_def)

lemma page_app_eq:
  "page_app = \<lparr>session = demo_session, store = store page_app,
      tracker = \<lparr>lastCommentTime = 1700000000000, lastRatingTime = 1700000000000,
                 lastProjectTime = 1700000000000\<rparr>\<rparr>"
  by (simp add: page_app_def demo_app_def)

lemma page_app_lists:
  "\<not> full (store page_app)" "docs (store page_app) ''allUsers'' = None"
  "readsAsList (getItem (storage (session page_app)) (store page_app) (''comments.'' @ toString10 1))"
  "readsAsList (getItem (storage (session page_app)) (store page_app) (''ratings.'' @ toString10 1))"
  "readsAsList (getItem (storage (session page_app)) (store page_app) ''logs._activity_logs'')"
  "\<not> readsAsList (getItem (storage (session page_app)) (store page_app) ''projects.userProjects'')"
  unfolding page_store_eq
  by (simp_all add: page_app_def demo_app_def demo_session_def readsAsList_def or_else_def
      getItem_def getDefaults_def storage_prefix_def toString10.simps digit36_def char_of_eq_iff)

lemma page_app_comment_and_rating_allowed:
  "\<exists>a'. addComment page_app firefox_de (demo_clock 3000) 1 ''Nice project'' (Some ''Alice'')
          = (Completed, a') \<and> lastCommentTime (tracker a') = date_now_later (demo_clock 3000)"
  "\<exists>a'. rateProject page_app (demo_clock 1000) 1 5 = (Completed, a')
          \<and> lastRatingTime (tracker a') = date_now (demo_clock 1000)"
proof -
  show "\<exists>a'. addComment page_app firefox_de (demo_clock 3000) 1 ''Nice project'' (Some ''Alice'')
          = (Completed, a') \<and> lastCommentTime (tracker a') = date_now_later (demo_clock 3000)"
  proof (rule addComment_allowed)
    show "sanitizeInput (trim ''Nice project'') \<noteq> []"
      by (simp add: sanitizeInput_def entityMap_def trim_def is_space_def)
    show "length (sanitizeInput (trim ''Nice project'')) \<le> MAX_COMMENT_LENGTH"
      by (simp add: sanitizeInput_def entityMap_def trim_def is_space_def MAX_COMMENT_LENGTH_def)
    show "COMMENT_COOLDOWN \<le> date_now (demo_clock 3000) - lastCommentTime (tracker page_app)"
      by (simp add: COMMENT_COOLDOWN_def demo_clock_def page_app_def demo_app_def)
  qed (rule page_app_lists)+
  show "\<exists>a'. rateProject page_app (demo_clock 1000) 1 5 = (Completed, a')
          \<and> lastRatingTime (tracker a') = date_now (demo_clock 1000)"
  proof (rule rateProject_allowed)
    show "RATING_COOLDOWN \<le> date_now (demo_clock 1000) - lastRatingTime (tracker page_app)"
      by (simp add: RATING_COOLDOWN_def demo_clock_def page_app_def demo_app_def)
  qed (rule page_app_lists)+
qed

text \<open>
  C3, the project class on the page as it is once loaded. \<open>getDefaults\<close> has no entry for
  \<open>projects.userProjects\<close>, so \<open>initializeStorageFiles\<close> reads null there and stores the
  namespace object \<open>{userProjects: []}\<close> under that key. A valid submission made exactly
  5000 ms after the last accepted one passes the rate check, reads that object (truthy, so
  the \<open>|| []\<close> does not apply), throws \<open>TypeError\<close> at \<open>userProjects.push\<close> and ends in the
  \<open>catch\<close>: the attempt is not carried out and \<open>lastProjectTime\<close> keeps its old value, where
  the claim has the attempt allowed and the last-action time updated.
\<close>

theorem userProjectForm_submit_after_load_fails:
  "getItem (storage (session page_app)) (store page_app) ''projects.userProjects''
     = JObj [(''userProjects'', JArr [])]
   \<and> PROJECT_COOLDOWN \<le> date_now (demo_clock 5000) - lastProjectTime (tracker page_app)
   \<and> fst (userProjectForm_submit (\<lambda>u. True) page_app firefox_de (demo_clock 5000) demo_form)
       = Failed TypeError
   \<and> lastProjectTime (tracker (snd (userProjectForm_submit (\<lambda>u. True) page_app firefox_de
         (demo_clock 5000) demo_form))) = 1700000000000"
proof -
  have g: "getItem (storage (session page_app)) (store page_app) ''projects.userProjects''
     = JObj [(''userProjects'', JArr [])]"
    unfolding page_store_eq
    by (simp add: page_app_def demo_app_def demo_session_def getItem_def storage_prefix_def)
  have c: "PROJECT_COOLDOWN \<le> date_now (demo_clock 5000) - lastProjectTime (tracker page_app)"
    by (simp add: page_app_def demo_app_def demo_clock_def PROJECT_COOLDOWN_def)
  have s: "userProjectForm_submit (\<lambda>u. True) page_app firefox_de (demo_clock 5000) demo_form
       = (Failed TypeError,
          snd (userProjectForm_submit (\<lambda>u. True) page_app firefox_de (demo_clock 5000) demo_form))
     \<and> tracker (snd (userProjectForm_submit (\<lambda>u. True) page_app firefox_de (demo_clock 5000)
                       demo_form))
       = tracker page_app"
    apply (subst (1 2 3) page_app_eq)
    unfolding page_store_eq
    by (simp add: userProjectForm_submit_def validateProjectData_def demo_form_def demo_clock_def
        PROJECT_COOLDOWN_def trim_def is_space_def demo_session_def firefox_de_def
        setNickname_def ensureUniqueNickname_def ls_setText_def saveUserDetails_def logActivity_def
        logEntry_def getItem_def setItem_def ls_setDoc_def getDefaults_def or_else_def spread2_def
        nullable_def storage_prefix_def page_app_def demo_app_def Let_def)
  from s have f: "fst (userProjectForm_submit (\<lambda>u. True) page_app firefox_de (demo_clock 5000)
                         demo_form) = Failed TypeError"
    by (metis fst_conv)
  have "lastProjectTime (tracker page_app) = 1700000000000"
    by (simp add: page_app_def demo_app_def)
  with s have t: "lastProjectTime (tracker (snd (userProjectForm_submit (\<lambda>u. True) page_app
         firefox_de (demo_clock 5000) demo_form))) = 1700000000000"
    by simp
  from g c f t show ?thesis by blast
qed

section \<open>Grouping comments\<close>

lemma split_at_hyphen:
  "CHR ''-'' \<notin> set d1 \<Longrightarrow> CHR ''-'' \<notin> set d2 \<Longrightarrow>
   d1 @ CHR ''-'' # r1 = d2 @ CHR ''-'' # r2 \<Longrightarrow> d1 = d2 \<and> r1 = r2"
proof (induction d1 arbitrary: d2)
  case Nil
  then show ?case by (cases d2) auto
next
  case (Cons x d1)
  then show ?case by (cases d2) auto
qed

lemma groupKey_inj:
  assumes "CHR ''-'' \<notin> set d1" "CHR ''-'' \<notin> set d2" "CHR ''-'' \<notin> set s1" "CHR ''-'' \<notin> set s2"
    and "groupKey d1 a1 s1 = groupKey d2 a2 s2"
  shows "d1 = d2 \<and> a1 = a2 \<and> s1 = s2"
proof -
  from assms(5) have "d1 @ CHR ''-'' # (a1 @ ''-'' @ s1) = d2 @ CHR ''-'' # (a2 @ ''-'' @ s2)"
    by (simp add: groupKey_def)
  from split_at_hyphen [OF assms(1,2) this] have d: "d1 = d2" and r: "a1 @ ''-'' @ s1 = a2 @ ''-'' @ s2"
    by simp_all
  from r have "rev (a1 @ ''-'' @ s1) = rev (a2 @ ''-'' @ s2)" by simp
  then have "rev s1 @ CHR ''-'' # rev a1 = rev s2 @ CHR ''-'' # rev a2" by simp
  moreover have "CHR ''-'' \<notin> set (rev s1)" "CHR ''-'' \<notin> set (rev s2)" using assms(3,4) by simp_all
  ultimately have "rev s1 = rev s2 \<and> rev a1 = rev a2" by (intro split_at_hyphen)
  with d show ?thesis by simp
qed

lemma set_insertBy: "set (insertBy cmp x ys) = insert x (set ys)"
  by (induction ys) auto

lemma set_sortBy: "set (sortBy cmp xs) = set xs"
  unfolding sortBy_def by (induction xs) (simp_all add: set_insertBy)

lemma distinct_map_insertBy:
  "distinct (map f (insertBy cmp x ys)) = (f x \<notin> f ` set ys \<and> distinct (map f ys))"
  by (induction ys) (auto simp: set_insertBy)

lemma distinct_map_sortBy: "distinct (map f (sortBy cmp xs)) = distinct (map f xs)"
  unfolding sortBy_def
proof (induction xs)
  case Nil
  then show ?case by simp
next
  case (Cons x xs)
  have "set (foldr (insertBy cmp) xs []) = set xs"
    using set_sortBy [of cmp xs] by (simp add: sortBy_def)
  with Cons show ?case by (simp add: distinct_map_insertBy)
qed

lemma sorted_insertBy:
  assumes "x \<in> S" and "set ys \<subseteq> S"
    and tot: "\<forall>a\<in>S. \<forall>b\<in>S. le a b \<or> le b a"
    and tr: "\<forall>a\<in>S. \<forall>b\<in>S. \<forall>c\<in>S. le a b \<longrightarrow> le b c \<longrightarrow> le a c"
    and le: "\<forall>a\<in>S. \<forall>b\<in>S. (cmp a b \<le> 0) = le a b"
    and "sorted_wrt le ys"
  shows "sorted_wrt le (insertBy cmp x ys)"
  using assms(2,6)
proof (induction ys)
  case Nil
  then show ?case by simp
next
  case (Cons y ys)
  have xS: "x \<in> S" and yS: "y \<in> S" and ysS: "set ys \<subseteq> S"
    using assms(1) Cons.prems(1) by simp_all
  show ?case
  proof (cases "cmp x y \<le> 0")
    case True
    then have xy: "le x y" using le xS yS by blast
    have "\<forall>z\<in>set ys. le x z"
    proof
      fix z assume z: "z \<in> set ys"
      with Cons.prems(2) have "le y z" by simp
      moreover have "z \<in> S" using z ysS by blast
      ultimately show "le x z" using tr xy xS yS by blast
    qed
    with True xy Cons.prems(2) show ?thesis by simp
  next
    case False
    then have "\<not> le x y" using le xS yS by blast
    then have yx: "le y x" using tot xS yS by blast
    have "sorted_wrt le (insertBy cmp x ys)"
      using ysS Cons.prems(2) by (intro Cons.IH) simp_all
    moreover have "\<forall>z\<in>set (insertBy cmp x ys). le y z"
      using yx Cons.prems(2) by (auto simp: set_insertBy)
    ultimately show ?thesis using False by simp
  qed
qed

lemma sorted_sortBy:
  assumes "set xs \<subseteq> S"
    and tot: "\<forall>a\<in>S. \<forall>b\<in>S. le a b \<or> le b a"
    and tr: "\<forall>a\<in>S. \<forall>b\<in>S. \<forall>c\<in>S. le a b \<longrightarrow> le b c \<longrightarrow> le a c"
    and le: "\<forall>a\<in>S. \<forall>b\<in>S. (cmp a b \<le> 0) = le a b"
  shows "sorted_wrt le (sortBy cmp xs)"
  using assms(1)
proof (induction xs)
  case Nil
  then show ?case by (simp add: sortBy_def)
next
  case (Cons x xs)
  have ih: "sorted_wrt le (sortBy cmp xs)" using Cons by simp
  have "set (sortBy cmp xs) \<subseteq> S" using Cons.prems by (simp add: set_sortBy)
  moreover have "x \<in> S" using Cons.prems by simp
  ultimately have "sorted_wrt le (insertBy cmp x (sortBy cmp xs))"
    using tot tr le ih by (intro sorted_insertBy [where S = S]) 
  then show ?case by (simp add: sortBy_def)
qed

lemma groupStep_new:
  assumes "commentKey fmt c \<notin> fst ` set G"
  shows "groupStep fmt G c
           = G @ [(commentKey fmt c,
                   \<lparr>date = fmt (timestamp c), group_author = author c,
                    group_stamp = comment_stamp c, comments = [c]\<rparr>)]"
proof -
  have "map_of G (commentKey fmt c) = None" using assms by (simp add: map_of_eq_None_iff)
  then show ?thesis by (simp add: groupStep_def commentKey_def Let_def)
qed

lemma groupStep_old:
  assumes "commentKey fmt c \<in> fst ` set G"
  shows "groupStep fmt G c
           = map (\<lambda>kg. if fst kg = commentKey fmt c
                        then (fst kg, (snd kg)\<lparr>comments := comments (snd kg) @ [c]\<rparr>)
                        else kg) G"
proof -
  have "map_of G (commentKey fmt c) \<noteq> None" using assms by (simp add: map_of_eq_None_iff)
  then show ?thesis by (simp add: groupStep_def commentKey_def Let_def)
qed

lemma groupsOf_step:
  assumes "groupsOf fmt xs G"
  shows "groupsOf fmt (xs @ [x]) (groupStep fmt G x)"
proof (cases "commentKey fmt x \<in> fst ` set G")
  case False
  let ?k = "commentKey fmt x"
  let ?g = "\<lparr>date = fmt (timestamp x), group_author = author x,
             group_stamp = comment_stamp x, comments = [x]\<rparr>"
  have step: "groupStep fmt G x = G @ [(?k, ?g)]" using False by (rule groupStep_new)
  have none: "filter (\<lambda>c. commentKey fmt c = ?k) xs = []"
  proof -
    have "\<forall>c\<in>set xs. commentKey fmt c \<noteq> ?k"
      using assms False unfolding groupsOf_def by metis
    then show ?thesis by (simp add: filter_empty_conv)
  qed
  have d: "distinct (map fst (G @ [(?k, ?g)]))"
    using assms False by (simp add: groupsOf_def image_iff)
  have old: "\<forall>kg\<in>set G. comments (snd kg) = filter (\<lambda>c. commentKey fmt c = fst kg) (xs @ [x])
                \<and> (\<exists>c\<in>set (xs @ [x]). commentKey fmt c = fst kg \<and> groupTriple (snd kg) = keyTriple fmt c)"
  proof
    fix kg assume kg: "kg \<in> set G"
    then have "fst kg \<noteq> ?k" using False by force
    moreover from assms kg
    have "comments (snd kg) = filter (\<lambda>c. commentKey fmt c = fst kg) xs"
      and "\<exists>c\<in>set xs. commentKey fmt c = fst kg \<and> groupTriple (snd kg) = keyTriple fmt c"
      unfolding groupsOf_def by blast+
    ultimately show "comments (snd kg) = filter (\<lambda>c. commentKey fmt c = fst kg) (xs @ [x])
                \<and> (\<exists>c\<in>set (xs @ [x]). commentKey fmt c = fst kg \<and> groupTriple (snd kg) = keyTriple fmt c)"
      by auto
  qed
  have new: "comments ?g = filter (\<lambda>c. commentKey fmt c = ?k) (xs @ [x])
             \<and> (\<exists>c\<in>set (xs @ [x]). commentKey fmt c = ?k \<and> groupTriple ?g = keyTriple fmt c)"
    using none by (simp add: groupTriple_def keyTriple_def)
  have cov: "\<forall>c\<in>set (xs @ [x]). commentKey fmt c \<in> fst ` set (G @ [(?k, ?g)])"
    using assms unfolding groupsOf_def by auto
  show ?thesis
    unfolding step groupsOf_def using d old new cov by auto
next
  case True
  let ?k = "commentKey fmt x"
  define u :: "string \<times> comment_group \<Rightarrow> string \<times> comment_group"
    where "u = (\<lambda>kg. if fst kg = ?k then (fst kg, (snd kg)\<lparr>comments := comments (snd kg) @ [x]\<rparr>) else kg)"
  have step: "groupStep fmt G x = map u G"
    unfolding u_def using True by (rule groupStep_old)
  have fu: "\<And>kg. fst (u kg) = fst kg" by (simp add: u_def)
  have keys: "map fst (map u G) = map fst G" by (simp add: fu comp_def)
  have d: "distinct (map fst (map u G))" using assms unfolding keys groupsOf_def by blast
  have each: "\<forall>kg\<in>set G. comments (snd (u kg)) = filter (\<lambda>c. commentKey fmt c = fst (u kg)) (xs @ [x])
                \<and> (\<exists>c\<in>set (xs @ [x]). commentKey fmt c = fst (u kg)
                                        \<and> groupTriple (snd (u kg)) = keyTriple fmt c)"
  proof
    fix kg assume kg: "kg \<in> set G"
    from assms kg
    have a: "comments (snd kg) = filter (\<lambda>c. commentKey fmt c = fst kg) xs"
      and b: "\<exists>c\<in>set xs. commentKey fmt c = fst kg \<and> groupTriple (snd kg) = keyTriple fmt c"
      unfolding groupsOf_def by blast+
    show "comments (snd (u kg)) = filter (\<lambda>c. commentKey fmt c = fst (u kg)) (xs @ [x])
                \<and> (\<exists>c\<in>set (xs @ [x]). commentKey fmt c = fst (u kg)
                                        \<and> groupTriple (snd (u kg)) = keyTriple fmt c)"
    proof (cases "fst kg = ?k")
      case True
      with a b show ?thesis by (auto simp: groupTriple_def u_def)
    next
      case False
      with a b show ?thesis by (auto simp: u_def)
    qed
  qed
  have cov: "\<forall>c\<in>set (xs @ [x]). commentKey fmt c \<in> fst ` set (map u G)"
  proof -
    have "fst ` set (map u G) = fst ` set G" using keys by (metis set_map)
    with assms True show ?thesis unfolding groupsOf_def by auto
  qed
  from each have each': "\<forall>kg\<in>set (map u G).
        comments (snd kg) = filter (\<lambda>c. commentKey fmt c = fst kg) (xs @ [x])
        \<and> (\<exists>c\<in>set (xs @ [x]). commentKey fmt c = fst kg \<and> groupTriple (snd kg) = keyTriple fmt c)"
    by (simp only: set_map ball_simps)
  show ?thesis
    unfolding step groupsOf_def using d each' cov by blast
qed

lemma groupsOf_foldl: "groupsOf fmt xs (foldl (groupStep fmt) [] xs)"
proof (induction xs rule: rev_induct)
  case Nil
  then show ?case by (simp add: groupsOf_def)
next
  case (snoc x xs)
  then show ?case by (simp add: groupsOf_step)
qed

lemma commentKey_eq_iff:
  assumes "wellFormedComment fmt dv c" and "wellFormedComment fmt dv c'"
  shows "(commentKey fmt c = commentKey fmt c') = (keyTriple fmt c = keyTriple fmt c')"
proof
  assume "commentKey fmt c = commentKey fmt c'"
  then have k: "groupKey (fmt (timestamp c)) (author c) (comment_stamp c)
               = groupKey (fmt (timestamp c')) (author c') (comment_stamp c')"
    by (simp add: commentKey_def)
  have h: "CHR ''-'' \<notin> set (fmt (timestamp c))" "CHR ''-'' \<notin> set (fmt (timestamp c'))"
    "CHR ''-'' \<notin> set (comment_stamp c)" "CHR ''-'' \<notin> set (comment_stamp c')"
    using assms by (simp_all add: wellFormedComment_def)
  from groupKey_inj [OF h k]
  show "keyTriple fmt c = keyTriple fmt c'"
    by (simp add: keyTriple_def)
next
  assume "keyTriple fmt c = keyTriple fmt c'"
  then show "commentKey fmt c = commentKey fmt c'"
    by (simp add: keyTriple_def commentKey_def)
qed

lemma distinct_map_comp: "distinct (map (\<lambda>x. f (h x)) xs) \<Longrightarrow> distinct (map h xs)"
  by (induction xs) auto

lemma comesBefore_Some:
  "dv (date g) = Some vg \<Longrightarrow> dv (date h) = Some vh \<Longrightarrow>
   comesBefore dv lc g h = (vh < vg \<or> (vh = vg \<and> lc (group_author g) (group_author h) \<le> 0))"
  by (simp add: comesBefore_def)

lemma comesBefore_dated:
  "comesBefore dv lc g h \<Longrightarrow> dv (date g) \<noteq> None \<and> dv (date h) \<noteq> None"
  by (cases "dv (date g)"; cases "dv (date h)") (simp_all add: comesBefore_def)

lemma comesBefore_total:
  assumes "collation lc" and "dv (date g) \<noteq> None" and "dv (date h) \<noteq> None"
  shows "comesBefore dv lc g h \<or> comesBefore dv lc h g"
proof -
  from assms(2,3) obtain vg vh where v: "dv (date g) = Some vg" "dv (date h) = Some vh" by blast
  have "lc (group_author g) (group_author h) \<le> 0 \<or> lc (group_author h) (group_author g) \<le> 0"
    using assms(1) unfolding collation_def by blast
  then show ?thesis
    unfolding comesBefore_Some [OF v] comesBefore_Some [OF v(2) v(1)] by linarith
qed

lemma comesBefore_trans:
  assumes "collation lc" and "comesBefore dv lc g h" and "comesBefore dv lc h k"
  shows "comesBefore dv lc g k"
proof -
  from comesBefore_dated [OF assms(2)] comesBefore_dated [OF assms(3)]
  obtain vg vh vk
    where v: "dv (date g) = Some vg" "dv (date h) = Some vh" "dv (date k) = Some vk"
    by blast
  have tr: "lc (group_author g) (group_author h) \<le> 0 \<Longrightarrow> lc (group_author h) (group_author k) \<le> 0
            \<Longrightarrow> lc (group_author g) (group_author k) \<le> 0"
    using assms(1) unfolding collation_def by blast
  from assms(2) have gh: "vh < vg \<or> (vh = vg \<and> lc (group_author g) (group_author h) \<le> 0)"
    unfolding comesBefore_Some [OF v(1) v(2)] .
  from assms(3) have hk: "vk < vh \<or> (vk = vh \<and> lc (group_author h) (group_author k) \<le> 0)"
    unfolding comesBefore_Some [OF v(2) v(3)] .
  from gh hk tr have "vk < vg \<or> (vk = vg \<and> lc (group_author g) (group_author k) \<le> 0)"
    by (cases "vh < vg"; cases "vk < vh") simp_all
  then show ?thesis unfolding comesBefore_Some [OF v(1) v(3)] .
qed

lemma compareGroups_le:
  assumes "dv (date g) \<noteq> None" and "dv (date h) \<noteq> None"
  shows "(compareGroups dv lc g h \<le> 0) = comesBefore dv lc g h"
proof -
  from assms obtain vg vh where v: "dv (date g) = Some vg" "dv (date h) = Some vh" by blast
  have "compareGroups dv lc g h = (if vh - vg \<noteq> 0 then vh - vg else lc (group_author g) (group_author h))"
    using v by (simp add: compareGroups_def)
  then show ?thesis unfolding comesBefore_Some [OF v] by (cases "vh - vg \<noteq> 0") auto
qed

lemma groups_rep:
  assumes "kg \<in> set (foldl (groupStep fmt) [] cs)"
  shows "\<exists>c0\<in>set cs. commentKey fmt c0 = fst kg \<and> groupTriple (snd kg) = keyTriple fmt c0
                  \<and> comments (snd kg) = filter (\<lambda>c. commentKey fmt c = fst kg) cs"
proof -
  have "groupsOf fmt cs (foldl (groupStep fmt) [] cs)" by (rule groupsOf_foldl)
  with assms show ?thesis unfolding groupsOf_def by blast
qed

lemma groups_cover:
  assumes "c \<in> set cs"
  shows "\<exists>kg\<in>set (foldl (groupStep fmt) [] cs). fst kg = commentKey fmt c"
proof -
  have "groupsOf fmt cs (foldl (groupStep fmt) [] cs)" by (rule groupsOf_foldl)
  with assms have "commentKey fmt c \<in> fst ` set (foldl (groupStep fmt) [] cs)"
    unfolding groupsOf_def by blast
  then obtain kg where "kg \<in> set (foldl (groupStep fmt) [] cs)" "commentKey fmt c = fst kg"
    by (rule imageE)
  then show ?thesis by (intro bexI [of _ kg]) simp_all
qed

lemma groups_distinct_keys: "distinct (map fst (foldl (groupStep fmt) [] cs))"
proof -
  have "groupsOf fmt cs (foldl (groupStep fmt) [] cs)" by (rule groupsOf_foldl)
  then show ?thesis unfolding groupsOf_def by blast
qed

lemma result_set:
  "set (groupCommentsByDateAndUser fmt dv lc cs) = snd ` set (foldl (groupStep fmt) [] cs)"
  by (simp add: groupCommentsByDateAndUser_def set_sortBy)

lemma result_members:
  assumes wf: "\<forall>c\<in>set cs. wellFormedComment fmt dv c"
    and g: "g \<in> set (groupCommentsByDateAndUser fmt dv lc cs)"
  shows "comments g = filter (\<lambda>c. keyTriple fmt c = groupTriple g) cs \<and> comments g \<noteq> []"
proof -
  from g obtain kg where kg: "kg \<in> set (foldl (groupStep fmt) [] cs)" and gk: "g = snd kg"
    unfolding result_set by blast
  from groups_rep [OF kg] obtain c0 where c0: "c0 \<in> set cs"
    and k: "commentKey fmt c0 = fst kg"
    and t: "groupTriple (snd kg) = keyTriple fmt c0"
    and cm: "comments (snd kg) = filter (\<lambda>c. commentKey fmt c = fst kg) cs"
    by blast
  have w0: "wellFormedComment fmt dv c0" using wf c0 by blast
  have eq: "filter (\<lambda>c. commentKey fmt c = fst kg) cs
            = filter (\<lambda>c. keyTriple fmt c = groupTriple (snd kg)) cs"
  proof (rule filter_cong [OF refl])
    fix c assume "c \<in> set cs"
    then have "wellFormedComment fmt dv c" using wf by blast
    from commentKey_eq_iff [OF this w0]
    show "(commentKey fmt c = fst kg) = (keyTriple fmt c = groupTriple (snd kg))"
      unfolding k t .
  qed
  have "c0 \<in> set (filter (\<lambda>c. commentKey fmt c = fst kg) cs)" using c0 k by simp
  then have ne: "filter (\<lambda>c. commentKey fmt c = fst kg) cs \<noteq> []"
    by (cases "filter (\<lambda>c. commentKey fmt c = fst kg) cs") simp_all
  from eq ne show ?thesis unfolding gk cm by (simp only: simp_thms)
qed

lemma result_distinct:
  "distinct (map groupTriple (groupCommentsByDateAndUser fmt dv lc cs))"
proof -
  let ?G = "foldl (groupStep fmt) [] cs"
  let ?f = "\<lambda>t. groupKey (fst t) (fst (snd t)) (snd (snd t))"
  have "map (\<lambda>kg. ?f (groupTriple (snd kg))) ?G = map fst ?G"
  proof (rule map_cong [OF refl])
    fix kg assume "kg \<in> set ?G"
    from groups_rep [OF this] obtain c0 where "commentKey fmt c0 = fst kg"
      and "groupTriple (snd kg) = keyTriple fmt c0" by blast
    then show "?f (groupTriple (snd kg)) = fst kg"
      by (simp add: keyTriple_def commentKey_def)
  qed
  then have "distinct (map (\<lambda>kg. ?f (groupTriple (snd kg))) ?G)"
    using groups_distinct_keys [of fmt cs] by (simp only:)
  then have "distinct (map (\<lambda>kg. groupTriple (snd kg)) ?G)"
    by (rule distinct_map_comp)
  then have "distinct (map groupTriple (map snd ?G))" by (simp add: comp_def)
  then show ?thesis
    by (simp add: groupCommentsByDateAndUser_def distinct_map_sortBy)
qed

lemma result_triples:
  assumes wf: "\<forall>c\<in>set cs. wellFormedComment fmt dv c"
  shows "groupTriple ` set (groupCommentsByDateAndUser fmt dv lc cs) = keyTriple fmt ` set cs"
proof
  let ?G = "foldl (groupStep fmt) [] cs"
  show "groupTriple ` set (groupCommentsByDateAndUser fmt dv lc cs) \<subseteq> keyTriple fmt ` set cs"
  proof
    fix tr assume "tr \<in> groupTriple ` set (groupCommentsByDateAndUser fmt dv lc cs)"
    then obtain kg where kg: "kg \<in> set ?G" and tr: "tr = groupTriple (snd kg)"
      unfolding result_set by blast
    from groups_rep [OF kg] obtain c0 where "c0 \<in> set cs"
      and "groupTriple (snd kg) = keyTriple fmt c0" by blast
    with tr show "tr \<in> keyTriple fmt ` set cs" by blast
  qed
  show "keyTriple fmt ` set cs \<subseteq> groupTriple ` set (groupCommentsByDateAndUser fmt dv lc cs)"
  proof
    fix tr assume "tr \<in> keyTriple fmt ` set cs"
    then obtain c where c: "c \<in> set cs" and tr: "tr = keyTriple fmt c" by blast
    from groups_cover [OF c] obtain kg where kg: "kg \<in> set ?G" and k: "fst kg = commentKey fmt c"
      by blast
    from groups_rep [OF kg] obtain c0 where c0: "c0 \<in> set cs"
      and k0: "commentKey fmt c0 = fst kg"
      and t0: "groupTriple (snd kg) = keyTriple fmt c0" by blast
    have "wellFormedComment fmt dv c" "wellFormedComment fmt dv c0" using wf c c0 by blast+
    from commentKey_eq_iff [OF this] k k0 have "keyTriple fmt c = keyTriple fmt c0" by simp
    with t0 tr have "tr = groupTriple (snd kg)" by simp
    moreover have "snd kg \<in> set (groupCommentsByDateAndUser fmt dv lc cs)"
      unfolding result_set using kg by (rule imageI)
    ultimately show "tr \<in> groupTriple ` set (groupCommentsByDateAndUser fmt dv lc cs)"
      by (simp only: image_eqI)
  qed
qed

lemma result_sorted:
  assumes wf: "\<forall>c\<in>set cs. wellFormedComment fmt dv c" and col: "collation lc"
  shows "sorted_wrt (comesBefore dv lc) (groupCommentsByDateAndUser fmt dv lc cs)"
proof -
  let ?G = "foldl (groupStep fmt) [] cs"
  let ?S = "set (map snd ?G)"
  have dated: "\<And>g. g \<in> ?S \<Longrightarrow> dv (date g) \<noteq> None"
  proof -
    fix g assume "g \<in> ?S"
    then obtain kg where kg: "kg \<in> set ?G" and g: "g = snd kg" by auto
    from groups_rep [OF kg] obtain c0 where c0: "c0 \<in> set cs"
      and t: "groupTriple (snd kg) = keyTriple fmt c0" by blast
    from t have "date g = fmt (timestamp c0)" unfolding g by (simp add: groupTriple_def keyTriple_def)
    moreover have "dv (fmt (timestamp c0)) \<noteq> None"
      using wf c0 by (simp add: wellFormedComment_def)
    ultimately show "dv (date g) \<noteq> None" by simp
  qed
  have "sorted_wrt (comesBefore dv lc) (sortBy (compareGroups dv lc) (map snd ?G))"
  proof (rule sorted_sortBy [where S = ?S])
    show "set (map snd ?G) \<subseteq> ?S" by (rule subset_refl)
    show "\<forall>a\<in>?S. \<forall>b\<in>?S. comesBefore dv lc a b \<or> comesBefore dv lc b a"
    proof (intro ballI)
      fix a b assume "a \<in> ?S" "b \<in> ?S"
      then have "dv (date a) \<noteq> None" "dv (date b) \<noteq> None" using dated by blast+
      then show "comesBefore dv lc a b \<or> comesBefore dv lc b a"
        by (rule comesBefore_total [OF col])
    qed
    show "\<forall>a\<in>?S. \<forall>b\<in>?S. \<forall>c\<in>?S.
            comesBefore dv lc a b \<longrightarrow> comesBefore dv lc b c \<longrightarrow> comesBefore dv lc a c"
    proof (intro ballI impI)
      fix a b c
      assume "comesBefore dv lc a b" "comesBefore dv lc b c"
      then show "comesBefore dv lc a c" by (rule comesBefore_trans [OF col])
    qed
    show "\<forall>a\<in>?S. \<forall>b\<in>?S. (compareGroups dv lc a b \<le> 0) = comesBefore dv lc a b"
    proof (intro ballI)
      fix a b assume "a \<in> ?S" "b \<in> ?S"
      then have "dv (date a) \<noteq> None" "dv (date b) \<noteq> None" using dated by blast+
      then show "(compareGroups dv lc a b \<le> 0) = comesBefore dv lc a b"
        by (rule compareGroups_le)
    qed
  qed
  then show ?thesis by (simp only: groupCommentsByDateAndUser_def)
qed

text \<open>
  C9, amended: \<open>groupCommentsByDateAndUser\<close> is a function of the comment list, of
  \<open>formatDate\<close> (the viewer's locale and time zone) and of the two browser functions its
  comparator calls. For comments as the program stores them, with \<open>localeCompare\<close> a
  collation: every group holds exactly the comments whose (date, author, stamp) is the
  group's, in their original order, and at least one; no two groups have the same triple;
  the triples of the groups are those of the comments; and of any two groups the earlier in
  the result has the later date, or the same date and an author that \<open>localeCompare\<close>, the
  collation of the viewer's locale and not the order of the character codes, does not
  place after the other's.
\<close>

theorem groupCommentsByDateAndUser_groups_sorted:
  assumes wf: "\<forall>c\<in>set cs. wellFormedComment formatDate dateValue c"
    and col: "collation localeCompare"
  shows "(\<forall>g\<in>set (groupCommentsByDateAndUser formatDate dateValue localeCompare cs).
            comments g = filter (\<lambda>c. keyTriple formatDate c = groupTriple g) cs \<and> comments g \<noteq> [])
         \<and> distinct (map groupTriple (groupCommentsByDateAndUser formatDate dateValue localeCompare cs))
         \<and> groupTriple ` set (groupCommentsByDateAndUser formatDate dateValue localeCompare cs)
             = keyTriple formatDate ` set cs
         \<and> sorted_wrt (comesBefore dateValue localeCompare)
             (groupCommentsByDateAndUser formatDate dateValue localeCompare cs)"
proof (intro conjI ballI)
  fix g assume "g \<in> set (groupCommentsByDateAndUser formatDate dateValue localeCompare cs)"
  from result_members [OF wf this]
  show "comments g = filter (\<lambda>c. keyTriple formatDate c = groupTriple g) cs"
    and "comments g \<noteq> []" by blast+
next
  show "distinct (map groupTriple (groupCommentsByDateAndUser formatDate dateValue localeCompare cs))"
    by (rule result_distinct)
next
  show "groupTriple ` set (groupCommentsByDateAndUser formatDate dateValue localeCompare cs)
          = keyTriple formatDate ` set cs"
    using wf by (rule result_triples)
next
  show "sorted_wrt (comesBefore dateValue localeCompare)
          (groupCommentsByDateAndUser formatDate dateValue localeCompare cs)"
    using wf col by (rule result_sorted)
qed

lemma compareNats_Cons_le:
  "(compareNats (x # xs) (y # ys) \<le> 0) = (x < y \<or> (x = y \<and> compareNats xs ys \<le> 0))"
  by (cases "x < y"; cases "y < x") simp_all

lemma compareNats_total: "compareNats x y \<le> 0 \<or> compareNats y x \<le> 0"
proof (induction x y rule: compareNats.induct)
  case (4 x xs y ys)
  show ?case
  proof (cases "x < y")
    case True
    then show ?thesis by simp
  next
    case nlt: False
    show ?thesis
    proof (cases "y < x")
      case True
      with nlt show ?thesis by simp
    next
      case False
      with nlt 4 show ?thesis by simp
    qed
  qed
qed simp_all

lemma compareNats_Nil_le: "(compareNats [] ys \<le> 0) = True"
  by (cases ys) simp_all

lemma compareNats_le_Nil: "(compareNats xs [] \<le> 0) = (xs = [])"
  by (cases xs) simp_all

lemma compareNats_trans:
  "compareNats x y \<le> 0 \<Longrightarrow> compareNats y z \<le> 0 \<Longrightarrow> compareNats x z \<le> 0"
proof (induction x arbitrary: y z)
  case Nil
  show ?case by (simp only: compareNats_Nil_le)
next
  case (Cons a x)
  from Cons.prems(1) obtain b y' where y: "y = b # y'"
    by (cases y) (simp_all only: compareNats_le_Nil list.simps)
  from Cons.prems(2) y obtain c z' where z: "z = c # z'"
    by (cases z) (simp_all only: compareNats_le_Nil list.simps)
  from Cons.prems(1) have ab: "a < b \<or> (a = b \<and> compareNats x y' \<le> 0)"
    unfolding y by (simp only: compareNats_Cons_le)
  from Cons.prems(2) have bc: "b < c \<or> (b = c \<and> compareNats y' z' \<le> 0)"
    unfolding y z by (simp only: compareNats_Cons_le)
  have "a < c \<or> (a = c \<and> compareNats x z' \<le> 0)"
  proof (cases "a = b \<and> b = c")
    case True
    with ab bc have "compareNats x y' \<le> 0" and "compareNats y' z' \<le> 0" by simp_all
    then have "compareNats x z' \<le> 0" by (rule Cons.IH)
    with True show ?thesis by simp
  next
    case False
    with ab bc have "a < c" by linarith
    then show ?thesis ..
  qed
  then show ?case unfolding z by (simp only: compareNats_Cons_le)
qed

lemma demo_dates:
  "demo_dateValue ''2024/01/05'' = Some 20240105" "demo_dateValue ''2024/01/06'' = Some 20240106"
  by (simp_all add: demo_dateValue_def)

lemma compareNats_eq_0: "(compareNats x y = 0) = (x = y)"
  by (induction x y rule: compareNats.induct) auto

lemma compareNats_flip: "compareNats y x = - compareNats x y"
  by (induction x y rule: compareNats.induct) auto

lemma compareNats_refl: "compareNats l l = 0"
  by (simp only: compareNats_eq_0)

lemma localeCompare_en_le:
  "(localeCompare_en a b \<le> 0) =
     (compareNats (map lower_code a) (map lower_code b) < 0
      \<or> (map lower_code a = map lower_code b \<and> compareNats (map of_char b) (map of_char a) \<le> 0))"
proof (cases "map lower_code a = map lower_code b")
  case True
  then show ?thesis by (simp add: localeCompare_en_def compareNats_refl)
next
  case neq: False
  then have "compareNats (map lower_code a) (map lower_code b) \<noteq> 0"
    by (simp only: compareNats_eq_0 not_False_eq_True)
  with neq show ?thesis unfolding localeCompare_en_def by auto
qed

lemma collation_localeCompare_en: "collation localeCompare_en"
  unfolding collation_def
proof (intro conjI allI impI)
  fix x y :: string
  let ?p = "compareNats (map lower_code x) (map lower_code y)"
  show "localeCompare_en x y \<le> 0 \<or> localeCompare_en y x \<le> 0"
  proof (cases "?p = 0")
    case True
    then have e: "map lower_code x = map lower_code y" by (simp only: compareNats_eq_0)
    have "compareNats (map of_char y) (map of_char x) \<le> 0
          \<or> compareNats (map of_char x) (map of_char y) \<le> 0" by (rule compareNats_total)
    with e show ?thesis by (auto simp add: localeCompare_en_le compareNats_refl)
  next
    case False
    have f: "compareNats (map lower_code y) (map lower_code x) = - ?p" by (rule compareNats_flip)
    from False have "?p < 0 \<or> - ?p < 0" by linarith
    with f show ?thesis by (auto simp only: localeCompare_en_le)
  qed
next
  fix x y z :: string
  let ?lx = "map lower_code x" and ?ly = "map lower_code y" and ?lz = "map lower_code z"
  assume a: "localeCompare_en x y \<le> 0 \<and> localeCompare_en y z \<le> 0"
  from a have xy: "compareNats ?lx ?ly < 0
      \<or> (?lx = ?ly \<and> compareNats (map of_char y) (map of_char x) \<le> 0)"
    by (simp only: localeCompare_en_le)
  from a have yz: "compareNats ?ly ?lz < 0
      \<or> (?ly = ?lz \<and> compareNats (map of_char z) (map of_char y) \<le> 0)"
    by (simp only: localeCompare_en_le)
  have r: "compareNats l l = 0" for l by (simp only: compareNats_eq_0)
  from xy have pxy: "compareNats ?lx ?ly \<le> 0" using r [of ?ly] by auto
  from yz have pyz: "compareNats ?ly ?lz \<le> 0" using r [of ?lz] by auto
  have pxz: "compareNats ?lx ?lz \<le> 0" by (rule compareNats_trans [OF pxy pyz])
  show "localeCompare_en x z \<le> 0"
  proof (cases "compareNats ?lx ?lz = 0")
    case False
    with pxz have "compareNats ?lx ?lz < 0" by simp
    then show ?thesis by (simp only: localeCompare_en_le simp_thms)
  next
    case True
    then have xz: "?lx = ?lz" by (simp only: compareNats_eq_0)
    have "compareNats ?ly ?lx = - compareNats ?lx ?ly" by (rule compareNats_flip)
    with pyz xz have "0 \<le> compareNats ?lx ?ly" by simp
    with xy have e1: "?lx = ?ly" and t1: "compareNats (map of_char y) (map of_char x) \<le> 0"
      by auto
    from yz e1 xz r [of ?lz]
    have t2: "compareNats (map of_char z) (map of_char y) \<le> 0" by auto
    have "compareNats (map of_char z) (map of_char x) \<le> 0"
      by (rule compareNats_trans [OF t2 t1])
    with xz show ?thesis by (simp only: localeCompare_en_le simp_thms)
  qed
qed

lemma zed_bob_order:
  "localeCompare_en ''Zed'' ''bob'' = 1" "localeCompare_en ''bob'' ''Zed'' = - 1"
  "compareCodes ''Zed'' ''bob'' = - 1"
  by (simp_all add: localeCompare_en_def lower_code_def compareCodes_def)

text \<open>
  C9 as stated, with ties broken by author in lexicographic order: \<open>Zed\<close> and \<open>bob\<close> comment
  on the same day. By character codes \<open>Zed\<close> is the smaller name (\<open>Z\<close> is 90, \<open>b\<close> is 98),
  so the lexicographic order puts the group of \<open>Zed\<close> first; the comparator asks
  \<open>localeCompare\<close>, for which \<open>bob\<close> comes before \<open>Zed\<close>, and the group of \<open>bob\<close> is first in
  the result.
\<close>

theorem groupCommentsByDateAndUser_bob_before_Zed:
  "map groupTriple (groupCommentsByDateAndUser demo_formatDate demo_dateValue localeCompare_en
                      zed_bob_comments)
     = [(''2024/01/05'', ''bob'', ''8T35C''), (''2024/01/05'', ''Zed'', ''A1B2C3'')]
   \<and> compareCodes ''Zed'' ''bob'' < 0"
  by (simp add: groupCommentsByDateAndUser_def sortBy_def groupStep_def groupKey_def groupTriple_def
      compareGroups_def zed_bob_comments_def demo_formatDate_def demo_dates zed_bob_order Let_def)

lemma demo_comments_wellFormed:
  "\<forall>c\<in>set demo_comments. wellFormedComment demo_formatDate demo_dateValue c"
  by (simp add: demo_comments_def wellFormedComment_def demo_formatDate_def demo_dateValue_def)

lemma demo_authors:
  "localeCompare_en ''alice'' ''bob'' = - 1" "localeCompare_en ''bob'' ''alice'' = 1"
  "localeCompare_en ''alice'' ''alice'' = 0" "localeCompare_en ''bob'' ''bob'' = 0"
  by (simp_all add: localeCompare_en_def lower_code_def)

lemma demo_groups:
  "groupCommentsByDateAndUser demo_formatDate demo_dateValue localeCompare_en demo_comments
     = [\<lparr>date = ''2024/01/06'', group_author = ''alice'', group_stamp = ''A1B2C3'',
         comments = [demo_comments ! 1]\<rparr>,
        \<lparr>date = ''2024/01/05'', group_author = ''alice'', group_stamp = ''A1B2C3'',
         comments = [demo_comments ! 3]\<rparr>,
        \<lparr>date = ''2024/01/05'', group_author = ''bob'', group_stamp = ''8T35C'',
         comments = [demo_comments ! 0, demo_comments ! 2]\<rparr>]"
  by (simp add: groupCommentsByDateAndUser_def sortBy_def groupStep_def groupKey_def
      compareGroups_def demo_comments_def demo_formatDate_def demo_dates demo_authors Let_def)

text \<open>
  The instance of the claim: four comments of two authors on two days come out as three
  groups, the later day first, and on the earlier day \<open>alice\<close> before \<open>bob\<close>, whose two
  comments keep their order.
\<close>

theorem groupCommentsByDateAndUser_groups_sorted_witness:
  "groupCommentsByDateAndUser demo_formatDate demo_dateValue localeCompare_en demo_comments
     = [\<lparr>date = ''2024/01/06'', group_author = ''alice'', group_stamp = ''A1B2C3'',
         comments = [demo_comments ! 1]\<rparr>,
        \<lparr>date = ''2024/01/05'', group_author = ''alice'', group_stamp = ''A1B2C3'',
         comments = [demo_comments ! 3]\<rparr>,
        \<lparr>date = ''2024/01/05'', group_author = ''bob'', group_stamp = ''8T35C'',
         comments = [demo_comments ! 0, demo_comments ! 2]\<rparr>]
   \<and> sorted_wrt (comesBefore demo_dateValue localeCompare_en)
       [\<lparr>date = ''2024/01/06'', group_author = ''alice'', group_stamp = ''A1B2C3'',
         comments = [demo_comments ! 1]\<rparr>,
        \<lparr>date = ''2024/01/05'', group_author = ''alice'', group_stamp = ''A1B2C3'',
         comments = [demo_comments ! 3]\<rparr>,
        \<lparr>date = ''2024/01/05'', group_author = ''bob'', group_stamp = ''8T35C'',
         comments = [demo_comments ! 0, demo_comments ! 2]\<rparr>]"
proof -
  from groupCommentsByDateAndUser_groups_sorted [OF demo_comments_wellFormed collation_localeCompare_en]
  have "sorted_wrt (comesBefore demo_dateValue localeCompare_en)
          (groupCommentsByDateAndUser demo_formatDate demo_dateValue localeCompare_en demo_comments)"
    by blast
  then show ?thesis unfolding demo_groups by (simp only: simp_thms)
qed

section \<open>The average rating\<close>

lemma scaleExp_reached: "0 < s \<Longrightarrow> n * 2 ^ 52 \<le> s * 2 ^ scaleExp s n k"
proof (induction s n k rule: scaleExp.induct)
  case (1 s n k)
  show ?case
  proof (cases "n * 2 ^ 52 \<le> s * 2 ^ k")
    case True
    then show ?thesis by (subst scaleExp.simps) simp
  next
    case False
    with 1 have "n * 2 ^ 52 \<le> s * 2 ^ scaleExp s n (Suc k)" by simp
    with False "1.prems" show ?thesis by (subst scaleExp.simps) simp
  qed
qed

lemma roundHalfEven_cases:
  "(2 * (N mod n) \<le> n \<and> roundHalfEven N n = N div n)
   \<or> (n \<le> 2 * (N mod n) \<and> roundHalfEven N n = N div n + 1)"
proof -
  consider "2 * (N mod n) < n" | "n < 2 * (N mod n)" | "2 * (N mod n) = n" by linarith
  then show ?thesis
  proof cases
    case 1
    then show ?thesis by (simp add: roundHalfEven_def Let_def)
  next
    case 2
    then show ?thesis by (simp add: roundHalfEven_def Let_def)
  next
    case 3
    then show ?thesis by (cases "even (N div n)") (simp_all add: roundHalfEven_def Let_def)
  qed
qed

lemma roundHalfEven_error:
  assumes "0 < n"
  shows "\<bar>2 * int (roundHalfEven N n) * int n - 2 * int N\<bar> \<le> int n"
proof -
  define a r nn where "a = int (N div n)" and "r = int (N mod n)" and "nn = int n"
  have "N = N div n * n + N mod n" by simp
  then have "int N = int (N div n * n + N mod n)" by (rule arg_cong)
  then have N: "int N = a * nn + r" by (simp only: a_def r_def nn_def of_nat_add of_nat_mult)
  have r: "0 \<le> r" "r < nn" using assms by (simp_all add: r_def nn_def)
  from roundHalfEven_cases [of N n]
  have "(2 * r \<le> nn \<and> int (roundHalfEven N n) = a) \<or> (nn \<le> 2 * r \<and> int (roundHalfEven N n) = a + 1)"
    by (auto simp: a_def r_def nn_def)
  then show ?thesis
  proof
    assume h: "2 * r \<le> nn \<and> int (roundHalfEven N n) = a"
    have "2 * a * nn - 2 * (a * nn + r) = - 2 * r" by (simp add: algebra_simps)
    with h N r show ?thesis unfolding nn_def [symmetric] by simp
  next
    assume h: "nn \<le> 2 * r \<and> int (roundHalfEven N n) = a + 1"
    have "2 * (a + 1) * nn - 2 * (a * nn + r) = 2 * nn - 2 * r" by (simp add: algebra_simps)
    with h N r show ?thesis unfolding nn_def [symmetric] by simp
  qed
qed

lemma tenths_error:
  "\<bar>2 * int (2 ^ k) * int (tenths m k) - 20 * int m\<bar> \<le> int (2 ^ k)"
proof -
  define K t where "K = (2::nat) ^ k" and "t = tenths m k"
  have K: "0 < K" by (simp add: K_def)
  have t: "t = (20 * m + K) div (2 * K)" by (simp add: t_def K_def tenths_def)
  have "(20 * m + K) div (2 * K) * (2 * K) \<le> 20 * m + K" by (rule div_times_less_eq_dividend)
  then have lo: "t * (2 * K) \<le> 20 * m + K" by (simp only: t)
  have "20 * m + K = (20 * m + K) div (2 * K) * (2 * K) + (20 * m + K) mod (2 * K)"
    by (rule div_mult_mod_eq [symmetric])
  moreover have "(20 * m + K) mod (2 * K) < 2 * K"
    using K by (intro mod_less_divisor) simp
  ultimately have "20 * m + K < (20 * m + K) div (2 * K) * (2 * K) + 2 * K" by linarith
  then have hi: "20 * m + K < t * (2 * K) + 2 * K" by (simp only: t)
  from lo have "int (t * (2 * K)) \<le> int (20 * m + K)" by (simp only: of_nat_le_iff)
  then have lo': "int t * (2 * int K) \<le> 20 * int m + int K" by simp
  from hi have "int (20 * m + K) < int (t * (2 * K) + 2 * K)" by (simp only: of_nat_less_iff)
  then have hi': "20 * int m + int K < int t * (2 * int K) + 2 * int K" by simp
  have "2 * int K * int t = int t * (2 * int K)" by simp
  with lo' hi' have "\<bar>2 * int K * int t - 20 * int m\<bar> \<le> int K" by linarith
  then show ?thesis by (simp only: K_def t_def)
qed

lemma tenths_of_mean:
  fixes S Nn K M T :: int
  assumes S: "0 < S" and Nn: "0 < Nn" and small: "10 * S < 2 ^ 52"
    and f1: "Nn * 2 ^ 52 \<le> S * K"
    and f2: "\<bar>2 * M * Nn - 2 * (S * K)\<bar> \<le> Nn"
    and f3: "\<bar>2 * K * T - 20 * M\<bar> \<le> K"
  shows "\<bar>2 * T * Nn - 20 * S\<bar> \<le> Nn"
proof (rule ccontr)
  assume "\<not> \<bar>2 * T * Nn - 20 * S\<bar> \<le> Nn"
  then have big: "Nn + 1 \<le> \<bar>2 * T * Nn - 20 * S\<bar>" by simp
  have K: "10 * Nn < K"
  proof (rule ccontr)
    assume "\<not> 10 * Nn < K"
    then have "K \<le> 10 * Nn" by simp
    then have "S * K \<le> S * (10 * Nn)" using S by (intro mult_left_mono) simp_all
    moreover have "(10 * S) * Nn < 2 ^ 52 * Nn" using small Nn by (rule mult_strict_right_mono)
    ultimately have "S * K < Nn * 2 ^ 52" by (simp add: mult.commute mult.left_commute)
    with f1 show False by simp
  qed
  then have K0: "0 < K" using Nn by linarith
  define A B D where "A = 2 * K * T - 20 * M" and "B = 2 * M * Nn - 2 * (S * K)"
    and "D = 2 * T * Nn - 20 * S"
  have eq: "K * D = Nn * A + 10 * B" by (simp add: A_def B_def D_def algebra_simps)
  have "\<bar>Nn * A\<bar> = Nn * \<bar>A\<bar>" using Nn by (simp add: abs_mult)
  moreover have "Nn * \<bar>A\<bar> \<le> Nn * K" using f3 Nn unfolding A_def by (intro mult_left_mono) simp_all
  moreover have "\<bar>10 * B\<bar> \<le> 10 * Nn" using f2 unfolding B_def by simp
  moreover have "\<bar>Nn * A + 10 * B\<bar> \<le> \<bar>Nn * A\<bar> + \<bar>10 * B\<bar>" by (rule abs_triangle_ineq)
  ultimately have "\<bar>K * D\<bar> \<le> Nn * K + 10 * Nn" unfolding eq by linarith
  moreover have "\<bar>K * D\<bar> = K * \<bar>D\<bar>" using K0 by (simp add: abs_mult)
  moreover have "K * (Nn + 1) \<le> K * \<bar>D\<bar>" using big K0 unfolding D_def by (intro mult_left_mono) simp_all
  moreover have "K * (Nn + 1) = Nn * K + K" by (simp add: algebra_simps)
  ultimately have "K \<le> 10 * Nn" by linarith
  with K show False by simp
qed

lemma meanTenths_accurate:
  assumes s: "0 < s" and n: "0 < n" and small: "10 * s < 2 ^ 52"
  shows "\<bar>2 * int (meanTenths s n) * int n - 20 * int s\<bar> \<le> int n"
proof -
  define k m where "k = scaleExp s n 0" and "m = roundHalfEven (s * 2 ^ k) n"
  have mt: "meanTenths s n = tenths m k" by (simp add: meanTenths_def k_def m_def Let_def)
  have "n * 2 ^ 52 \<le> s * 2 ^ k" unfolding k_def using s by (rule scaleExp_reached)
  then have "int (n * 2 ^ 52) \<le> int (s * 2 ^ k)" by (simp only: of_nat_le_iff)
  then have f1: "int n * 2 ^ 52 \<le> int s * int (2 ^ k)" by simp
  have "\<bar>2 * int m * int n - 2 * int (s * 2 ^ k)\<bar> \<le> int n"
    unfolding m_def using n by (rule roundHalfEven_error)
  then have f2: "\<bar>2 * int m * int n - 2 * (int s * int (2 ^ k))\<bar> \<le> int n" by simp
  have f3: "\<bar>2 * int (2 ^ k) * int (tenths m k) - 20 * int m\<bar> \<le> int (2 ^ k)"
    by (rule tenths_error)
  from small have "int (10 * s) < int (2 ^ 52)" by (simp only: of_nat_less_iff)
  then have sm: "10 * int s < 2 ^ 52" by simp
  have "0 < int s" "0 < int n" using s n by simp_all
  from tenths_of_mean [OF this sm f1 f2 f3]
  show ?thesis unfolding mt .
qed

lemma toFixed1_not_NA: "toFixed1 t \<noteq> ''N/A''"
proof
  assume "toFixed1 t = ''N/A''"
  moreover have "CHR ''.'' \<in> set (toFixed1 t)" by (simp add: toFixed1_def)
  ultimately have "CHR ''.'' \<in> set ''N/A''" by (simp only:)
  then show False by simp
qed

lemma getAverageRating_NA: "(getAverageRating ratings = ''N/A'') = (ratings = None \<or> ratings = Some [])"
proof (cases ratings)
  case None
  then show ?thesis by (simp add: getAverageRating_def)
next
  case (Some rs)
  then show ?thesis by (cases rs) (simp_all add: getAverageRating_def toFixed1_not_NA)
qed

lemma digit36_code: "d < 10 \<Longrightarrow> of_char (digit36 d) = (48::nat) + d"
  by (simp add: digit36_def)

lemma digit36_not_point: "d < 10 \<Longrightarrow> digit36 d \<noteq> CHR ''.''"
proof
  assume d: "d < 10" and e: "digit36 d = CHR ''.''"
  from d have "of_char (digit36 d) = (48::nat) + d" by (rule digit36_code)
  with e have "of_char (CHR ''.'') = (48::nat) + d" by simp
  then show False by simp
qed

lemma digitsValue_snoc: "digitsValue (xs @ [c]) = 10 * digitsValue xs + (of_char c - 48)"
  by (simp add: digitsValue_def)

lemma toString10_small: "n < 10 \<Longrightarrow> toString10 n = [digit36 n]"
  by (subst toString10.simps) simp

lemma toString10_big: "\<not> n < 10 \<Longrightarrow> toString10 n = toString10 (n div 10) @ [digit36 (n mod 10)]"
  by (subst toString10.simps) simp

lemma toString10_no_point: "CHR ''.'' \<notin> set (toString10 n)"
proof (induction n rule: toString10.induct)
  case (1 n)
  show ?case
  proof (cases "n < 10")
    case True
    then show ?thesis using digit36_not_point [of n] by (auto simp add: toString10_small)
  next
    case False
    have "n mod 10 < 10" by simp
    then have "digit36 (n mod 10) \<noteq> CHR ''.''" by (rule digit36_not_point)
    with False 1 show ?thesis by (auto simp add: toString10_big)
  qed
qed

lemma digitsValue_toString10: "digitsValue (toString10 n) = n"
proof (induction n rule: toString10.induct)
  case (1 n)
  show ?case
  proof (cases "n < 10")
    case True
    then show ?thesis by (simp add: toString10_small digitsValue_def digit36_code)
  next
    case False
    have m: "n mod 10 < 10" by simp
    from False 1 have "digitsValue (toString10 (n div 10)) = n div 10" by simp
    with False show ?thesis
      by (simp add: toString10_big digitsValue_snoc digit36_code [OF m])
  qed
qed

lemma fixed1Value_toFixed1: "fixed1Value (toFixed1 t) = t"
proof -
  have m: "t mod 10 < 10" by simp
  have "filter (\<lambda>c. c \<noteq> CHR ''.'') (toString10 (t div 10)) = toString10 (t div 10)"
    using toString10_no_point [of "t div 10"] by (auto simp add: filter_id_conv)
  then have "filter (\<lambda>c. c \<noteq> CHR ''.'') (toFixed1 t) = toString10 (t div 10) @ [digit36 (t mod 10)]"
    using digit36_not_point [OF m] by (simp add: toFixed1_def toString10_small [OF m])
  then have "fixed1Value (toFixed1 t) = 10 * digitsValue (toString10 (t div 10)) + (of_char (digit36 (t mod 10)) - 48)"
    by (simp only: fixed1Value_def digitsValue_snoc)
  then show ?thesis by (simp add: digitsValue_toString10 digit36_code [OF m])
qed

lemma scaleExp_value:
  assumes s: "0 < s" and n1: "n * 2 ^ 52 \<le> s * 2 ^ Suc K" and n2: "s * 2 ^ K < n * 2 ^ 52"
  shows "k \<le> Suc K \<Longrightarrow> scaleExp s n k = Suc K"
proof (induction "Suc K - k" arbitrary: k)
  case 0
  then have "k = Suc K" by simp
  with n1 show ?case by (subst scaleExp.simps) simp
next
  case (Suc d)
  then have k: "k \<le> K" by simp
  then have "(2::nat) ^ k \<le> 2 ^ K" by (intro power_increasing) simp_all
  then have "s * 2 ^ k \<le> s * 2 ^ K" by (rule mult_le_mono2)
  then have "s * 2 ^ k < n * 2 ^ 52" using n2 by (rule le_less_trans)
  then have "\<not> (s = 0 \<or> n * 2 ^ 52 \<le> s * 2 ^ k)" using s by simp
  then have "scaleExp s n k = scaleExp s n (Suc k)" by (subst scaleExp.simps) simp
  moreover have "scaleExp s n (Suc k) = Suc K"
  proof (rule Suc.hyps(1))
    show "d = Suc K - Suc k" using Suc.hyps(2) by simp
    show "Suc k \<le> Suc K" using k by simp
  qed
  ultimately show ?case by simp
qed

lemma scaleExp_examples: "scaleExp 12 3 0 = 50" "scaleExp 5 1 0 = 50" "scaleExp 14 3 0 = 50"
proof -
  have "scaleExp 12 3 0 = Suc 49" by (rule scaleExp_value) simp_all
  then show "scaleExp 12 3 0 = 50" by simp
  have "scaleExp 5 1 0 = Suc 49" by (rule scaleExp_value) simp_all
  then show "scaleExp 5 1 0 = 50" by simp
  have "scaleExp 14 3 0 = Suc 49" by (rule scaleExp_value) simp_all
  then show "scaleExp 14 3 0 = 50" by simp
qed

lemma meanTenths_examples: "meanTenths 12 3 = 40" "meanTenths 5 1 = 50" "meanTenths 14 3 = 47"
  by (simp_all add: meanTenths_def scaleExp_examples roundHalfEven_def tenths_def Let_def)

lemma toFixed1_examples: "toFixed1 40 = ''4.0''" "toFixed1 50 = ''5.0''" "toFixed1 47 = ''4.7''"
  by (simp_all add: toFixed1_def toString10.simps digit36_def char_of_eq_iff)

lemma getAverageRating_examples:
  "getAverageRating (Some [5, 4, 3]) = ''4.0''"
  "getAverageRating (Some [5]) = ''5.0''"
  "getAverageRating (Some [5, 5, 4]) = ''4.7''"
  "getAverageRating (Some []) = ''N/A''"
  "getAverageRating None = ''N/A''"
proof -
  have m: "meanTenths 12 (Suc (Suc (Suc 0))) = 40" "meanTenths 5 (Suc 0) = 50"
    "meanTenths 14 (Suc (Suc (Suc 0))) = 47"
    using meanTenths_examples by (simp_all only: numeral_3_eq_3 One_nat_def)
  show "getAverageRating (Some [5, 4, 3]) = ''4.0''"
    by (simp add: getAverageRating_def m toFixed1_examples)
  show "getAverageRating (Some [5]) = ''5.0''"
    by (simp add: getAverageRating_def m toFixed1_examples)
  show "getAverageRating (Some [5, 5, 4]) = ''4.7''"
    by (simp add: getAverageRating_def m toFixed1_examples)
  show "getAverageRating (Some []) = ''N/A''" by (simp add: getAverageRating_def)
  show "getAverageRating None = ''N/A''" by (simp add: getAverageRating_def)
qed

lemma getAverageRating_tenths:
  assumes n: "0 < length rs" and small: "10 * sum_list rs < 2 ^ 52"
  shows "getAverageRating (Some rs) = toFixed1 (fixed1Value (getAverageRating (Some rs)))
         \<and> \<bar>2 * int (fixed1Value (getAverageRating (Some rs))) * int (length rs)
              - 20 * int (sum_list rs)\<bar> \<le> int (length rs)"
proof (cases "sum_list rs = 0")
  case True
  with n have g: "getAverageRating (Some rs) = toFixed1 0" by (simp add: getAverageRating_def)
  have fv: "fixed1Value (getAverageRating (Some rs)) = 0"
    by (simp only: g fixed1Value_toFixed1)
  have "getAverageRating (Some rs) = toFixed1 (fixed1Value (getAverageRating (Some rs)))"
    by (simp only: g fixed1Value_toFixed1)
  moreover have "\<bar>2 * int 0 * int (length rs) - 20 * int 0\<bar> \<le> int (length rs)" by simp
  then have "\<bar>2 * int (fixed1Value (getAverageRating (Some rs))) * int (length rs)
              - 20 * int (sum_list rs)\<bar> \<le> int (length rs)"
    by (simp only: fv True)
  ultimately show ?thesis by (rule conjI)
next
  case False
  with n have g: "getAverageRating (Some rs) = toFixed1 (meanTenths (sum_list rs) (length rs))"
    by (simp add: getAverageRating_def del: sum_list_eq_0_iff)
  have v: "fixed1Value (toFixed1 (meanTenths (sum_list rs) (length rs)))
             = meanTenths (sum_list rs) (length rs)" by (rule fixed1Value_toFixed1)
  from False have "0 < sum_list rs" by (simp only: neq0_conv)
  from meanTenths_accurate [OF this n small]
  have "\<bar>2 * int (meanTenths (sum_list rs) (length rs)) * int (length rs)
          - 20 * int (sum_list rs)\<bar> \<le> int (length rs)" .
  with g v show ?thesis by (simp only: simp_thms)
qed

text \<open>
  C8: \<open>getAverageRating\<close> answers \<open>N/A\<close> exactly for a missing or an empty list. For a
  non-empty list of whole-number ratings with sum \<open>s\<close> and length \<open>n\<close>, \<open>10 * s\<close> below
  \<open>2 ^ 52\<close>, the answer is the one-decimal text of a number of tenths \<open>t\<close> (the number the
  text denotes) with \<open>\<bar>t / 10 - s / n\<bar> \<le> 1 / 20\<close>, written here without fractions: the
  arithmetic mean to one decimal place, also after the quotient has been rounded to a
  double. For \<open>[5, 4, 3]\<close> it is \<open>4.0\<close>, for \<open>[5]\<close> it is \<open>5.0\<close>, for \<open>[]\<close> it is \<open>N/A\<close>.
\<close>

theorem getAverageRating_mean:
  "(getAverageRating ratings = ''N/A'') = (ratings = None \<or> ratings = Some [])
   \<and> (0 < length rs \<and> 10 * sum_list rs < 2 ^ 52 \<longrightarrow>
        getAverageRating (Some rs) = toFixed1 (fixed1Value (getAverageRating (Some rs)))
        \<and> \<bar>2 * int (fixed1Value (getAverageRating (Some rs))) * int (length rs)
             - 20 * int (sum_list rs)\<bar> \<le> int (length rs))
   \<and> getAverageRating (Some [5, 4, 3]) = ''4.0''
   \<and> getAverageRating (Some [5]) = ''5.0''
   \<and> getAverageRating (Some []) = ''N/A''"
proof (intro conjI impI)
  show "(getAverageRating ratings = ''N/A'') = (ratings = None \<or> ratings = Some [])"
    by (rule getAverageRating_NA)
next
  assume a: "0 < length rs \<and> 10 * sum_list rs < 2 ^ 52"
  from getAverageRating_tenths [OF conjunct1 [OF a] conjunct2 [OF a]]
  show "getAverageRating (Some rs) = toFixed1 (fixed1Value (getAverageRating (Some rs)))"
    and "\<bar>2 * int (fixed1Value (getAverageRating (Some rs))) * int (length rs)
             - 20 * int (sum_list rs)\<bar> \<le> int (length rs)" by blast+
next
  show "getAverageRating (Some [5, 4, 3]) = ''4.0''" by (rule getAverageRating_examples)
  show "getAverageRating (Some [5]) = ''5.0''" by (rule getAverageRating_examples)
  show "getAverageRating (Some []) = ''N/A''" by (rule getAverageRating_examples)
qed

lemma fixed1Value_47: "fixed1Value ''4.7'' = 47"
  by (simp add: fixed1Value_def digitsValue_def)

text \<open>
  The ratings 5, 5 and 4: the mean 14 / 3 is no double and no tenth; the answer is \<open>4.7\<close>,
  and \<open>\<bar>2 * 47 * 3 - 20 * 14\<bar> = 2 \<le> 3\<close>.
\<close>

theorem getAverageRating_mean_witness:
  "0 < length [5, 5, 4 :: nat] \<and> 10 * sum_list [5, 5, 4 :: nat] < 2 ^ 52
   \<and> getAverageRating (Some [5, 5, 4]) = ''4.7''
   \<and> getAverageRating (Some [5, 5, 4]) = toFixed1 47
   \<and> \<bar>2 * int (fixed1Value (getAverageRating (Some [5, 5, 4]))) * int (length [5, 5, 4 :: nat])
        - 20 * int (sum_list [5, 5, 4 :: nat])\<bar> \<le> int (length [5, 5, 4 :: nat])"
  using getAverageRating_mean [of "Some [5, 5, 4]" "[5, 5, 4]"]
  by (simp add: getAverageRating_examples toFixed1_examples fixed1Value_47)

end
